theory Spec2Isabelle
  imports Complex_Main "HOL-Library.AList"
begin

text \<open>
  A model of \<open>vk.py\<close>: the operations of \<open>VKParser\<close> that enumerate the posts of a
  wall (\<open>get_all_posts\<close>), delete them after a confirmation (\<open>delete_all_posts\<close>,
  \<open>delete_posts_with_confirmation\<close>, \<open>_delete_posts\<close>) and format them for export
  (\<open>extract_text_from_posts\<close>), over the API gateway \<open>_make_api_request\<close>. The
  console, the remote API and the clock are explicit: what is typed, what the remote
  answers and how a time stamp prints are inputs of a run, and what a run prints, asks
  and sends is its trace. Login, the menu and the writing of the export file are not
  modelled.
\<close>

section \<open>Python values\<close>

text \<open>
  A Python \<open>str\<close> is a sequence of Unicode code points: \<open>len\<close>, slicing and
  \<open>strip\<close> work on code points, and wall posts are mostly non-ASCII text. A string is
  therefore a list of code points; \<open>ascii\<close> embeds an ASCII literal.
\<close>

type_synonym pystr = "nat list"

definition ascii :: "string \<Rightarrow> pystr" where
  "ascii s = map of_char s"

text \<open>
  What \<open>response.json()\<close> returns: \<open>None\<close>, \<open>bool\<close>, \<open>int\<close> (unbounded),
  \<open>float\<close>, \<open>str\<close>, \<open>list\<close> or \<open>dict\<close> (keys in insertion order). A finite float
  is represented by its exact rational value; the infinities and NaN are not
  represented.
\<close>

datatype json =
    JNull
  | JBool bool
  | JInt int
  | JFloat rat
  | JStr pystr
  | JList "json list"
  | JObj "(pystr \<times> json) list"

datatype error = TypeError | KeyError | AttributeError | EOFError | OverflowError | OSError

text \<open>Truth value testing: \<open>if x\<close>, \<open>not x\<close>, \<open>x and y\<close>.\<close>

fun truthy :: "json \<Rightarrow> bool" where
  "truthy JNull = False"
| "truthy (JBool b) = b"
| "truthy (JInt n) = (n \<noteq> 0)"
| "truthy (JFloat q) = (q \<noteq> 0)"
| "truthy (JStr s) = (s \<noteq> [])"
| "truthy (JList xs) = (xs \<noteq> [])"
| "truthy (JObj d) = (d \<noteq> [])"

text \<open>\<open>k in s\<close> for two strings: \<open>k\<close> occurs in \<open>s\<close> as a contiguous run.\<close>

fun py_substr :: "pystr \<Rightarrow> pystr \<Rightarrow> bool" where
  "py_substr k [] = (k = [])"
| "py_substr k (c # s) = (take (length k) (c # s) = k \<or> py_substr k s)"

text \<open>
  \<open>k in x\<close> for a string literal \<open>k\<close>: key membership in a dict, element membership
  in a list, substring test in a string; every other value is not iterable.
\<close>

fun py_in :: "pystr \<Rightarrow> json \<Rightarrow> error + bool" where
  "py_in k (JObj d) = Inr (k \<in> set (map fst d))"
| "py_in k (JList xs) = Inr (JStr k \<in> set xs)"
| "py_in k (JStr s) = Inr (py_substr k s)"
| "py_in k JNull = Inl TypeError"
| "py_in k (JBool b) = Inl TypeError"
| "py_in k (JInt n) = Inl TypeError"
| "py_in k (JFloat q) = Inl TypeError"

text \<open>
  \<open>x[k]\<close> for a string literal \<open>k\<close>: dict lookup (\<open>KeyError\<close> when absent); a list or
  a string wants an integer index and the other values are not subscriptable
  (\<open>TypeError\<close>).
\<close>

fun py_getitem :: "json \<Rightarrow> pystr \<Rightarrow> error + json" where
  "py_getitem (JObj d) k = (case map_of d k of None \<Rightarrow> Inl KeyError | Some v \<Rightarrow> Inr v)"
| "py_getitem JNull k = Inl TypeError"
| "py_getitem (JBool b) k = Inl TypeError"
| "py_getitem (JInt n) k = Inl TypeError"
| "py_getitem (JFloat q) k = Inl TypeError"
| "py_getitem (JStr s) k = Inl TypeError"
| "py_getitem (JList xs) k = Inl TypeError"

text \<open>\<open>x == n\<close> for an integer literal \<open>n\<close>; \<open>True == 1\<close> and \<open>1.0 == 1\<close> hold in Python.\<close>

fun py_eq_int :: "json \<Rightarrow> int \<Rightarrow> bool" where
  "py_eq_int (JInt m) n = (m = n)"
| "py_eq_int (JBool b) n = ((if b then 1 else 0) = n)"
| "py_eq_int (JFloat q) n = (q = of_int n)"
| "py_eq_int JNull n = False"
| "py_eq_int (JStr s) n = False"
| "py_eq_int (JList xs) n = False"
| "py_eq_int (JObj d) n = False"

text \<open>Iteration (\<open>list.extend\<close>) and \<open>len\<close>: a dict iterates over its keys, a
  string over its characters.\<close>

fun py_iter :: "json \<Rightarrow> error + json list" where
  "py_iter (JList xs) = Inr xs"
| "py_iter (JStr s) = Inr (map (\<lambda>c. JStr [c]) s)"
| "py_iter (JObj d) = Inr (map (\<lambda>kv. JStr (fst kv)) d)"
| "py_iter JNull = Inl TypeError"
| "py_iter (JBool b) = Inl TypeError"
| "py_iter (JInt n) = Inl TypeError"
| "py_iter (JFloat q) = Inl TypeError"

fun py_len :: "json \<Rightarrow> error + nat" where
  "py_len (JList xs) = Inr (length xs)"
| "py_len (JStr s) = Inr (length s)"
| "py_len (JObj d) = Inr (length d)"
| "py_len JNull = Inl TypeError"
| "py_len (JBool b) = Inl TypeError"
| "py_len (JInt n) = Inl TypeError"
| "py_len (JFloat q) = Inl TypeError"

section \<open>The session, the console and the remote API\<close>

text \<open>The fields of \<open>VKParser\<close> the operations read: \<open>self.access_token\<close> and
  \<open>self.user_id\<close> (both \<open>None\<close> before login).\<close>

record session =
  access_token :: json
  user_id :: json

record request =
  rmethod :: pystr
  rparams :: "(pystr \<times> json) list"

text \<open>Every \<open>print\<close> of the modelled operations, with the values it interpolates;
  the fixed (Russian) text of each line is in the source at the line given.\<close>

datatype line =
    MsgApiError pystr             \<comment> \<open>line 60\<close>
  | MsgNeedAuth                   \<comment> \<open>lines 66, 104, 156\<close>
  | MsgCollectStart               \<comment> \<open>line 69\<close>
  | MsgLoading int                \<comment> \<open>line 75: the offset\<close>
  | MsgFetchError                 \<comment> \<open>line 84\<close>
  | MsgWarnIrreversible           \<comment> \<open>line 107\<close>
  | MsgWarnNoRestore              \<comment> \<open>line 108\<close>
  | MsgCancelled                  \<comment> \<open>lines 112, 179, 184\<close>
  | MsgNoPosts                    \<comment> \<open>lines 117, 161\<close>
  | MsgFoundToDelete nat          \<comment> \<open>line 120\<close>
  | MsgDeleting nat nat           \<comment> \<open>line 126: i, len(posts)\<close>
  | MsgDeleted json               \<comment> \<open>line 136: the post id\<close>
  | MsgDeleteError json           \<comment> \<open>line 139: the post id\<close>
  | MsgErrorCode json             \<comment> \<open>line 141\<close>
  | MsgErrorMsg json              \<comment> \<open>line 142\<close>
  | MsgResultHeader               \<comment> \<open>line 147\<close>
  | MsgResultDeleted nat          \<comment> \<open>line 148\<close>
  | MsgResultErrors nat           \<comment> \<open>line 149\<close>
  | MsgFound nat                  \<comment> \<open>line 164\<close>
  | MsgFirstFive                  \<comment> \<open>line 165\<close>
  | MsgPreview nat pystr json     \<comment> \<open>line 171: i, post_date, text_preview\<close>
  | MsgWarnAll nat                \<comment> \<open>line 173\<close>
  | MsgNoUndo                     \<comment> \<open>line 174\<close>
  | MsgDeletingId nat nat json    \<comment> \<open>line 195: i, len(posts), the post id\<close>
  | MsgDeleteErrorId json         \<comment> \<open>line 206: the post id\<close>
  | MsgDoneHeader                 \<comment> \<open>line 210\<close>
  | MsgDoneDeleted nat            \<comment> \<open>line 211\<close>
  | MsgDoneErrors nat             \<comment> \<open>line 212\<close>

datatype prompt =
    AskDeleteAll                  \<comment> \<open>line 110\<close>
  | AskDeleteMyPosts              \<comment> \<open>line 177\<close>
  | AskYesIAmSure                 \<comment> \<open>line 182\<close>

text \<open>
  What a run does to the outside: lines printed, prompts shown, API requests sent
  (with what came back: \<open>Inl\<close> the text of the exception the HTTP client or the JSON
  decoder raised, \<open>Inr\<close> the decoded body) and pauses (\<open>time.sleep\<close>, in
  milliseconds).
\<close>

datatype event =
    Print line
  | Prompt prompt
  | Call request "pystr + json"
  | Sleep nat

record world =
  inputs :: "pystr list"
  trace :: "event list"

fun requests_of :: "event list \<Rightarrow> request list" where
  "requests_of [] = []"
| "requests_of (Call r a # es) = r # requests_of es"
| "requests_of (Print l # es) = requests_of es"
| "requests_of (Prompt p # es) = requests_of es"
| "requests_of (Sleep n # es) = requests_of es"

text \<open>The remote API: its answer to a request may depend on every request sent
  before (deletions change the wall).\<close>

type_synonym remote = "request list \<Rightarrow> request \<Rightarrow> pystr + json"

definition print_line :: "line \<Rightarrow> world \<Rightarrow> world" where
  "print_line l w = w\<lparr>trace := trace w @ [Print l]\<rparr>"

definition sleep :: "nat \<Rightarrow> world \<Rightarrow> world" where
  "sleep ms w = w\<lparr>trace := trace w @ [Sleep ms]\<rparr>"

text \<open>\<open>input(prompt)\<close>: shows the prompt and reads one line; \<open>EOFError\<close> at the end
  of the input.\<close>

definition input :: "prompt \<Rightarrow> world \<Rightarrow> (error + pystr) \<times> world" where
  "input p w =
     (case inputs w of
        [] \<Rightarrow> (Inl EOFError, w\<lparr>trace := trace w @ [Prompt p]\<rparr>)
      | x # xs \<Rightarrow> (Inr x, w\<lparr>inputs := xs, trace := trace w @ [Prompt p]\<rparr>))"

section \<open>The API gateway\<close>

text \<open>
  \<open>_make_api_request\<close> (lines 47-61): adds the token and the version to the
  parameters, sends the request, and returns the decoded body; any exception of the
  transport or the decoder is printed and turned into \<open>None\<close>.
\<close>

definition make_api_request ::
  "remote \<Rightarrow> session \<Rightarrow> pystr \<Rightarrow> (pystr \<times> json) list \<Rightarrow> world \<Rightarrow> json \<times> world" where
  "make_api_request api s m params w =
     (let params1 = AList.update (ascii ''access_token'') (access_token s) params;
          params2 = AList.update (ascii ''v'') (JStr (ascii ''5.131'')) params1;
          req = \<lparr>rmethod = m, rparams = params2\<rparr>;
          answer = api (requests_of (trace w)) req;
          w1 = w\<lparr>trace := trace w @ [Call req answer]\<rparr>
      in case answer of
           Inl e \<Rightarrow> (JNull, print_line (MsgApiError e) w1)
         | Inr body \<Rightarrow> (body, w1))"

section \<open>Bulk deletion\<close>

text \<open>The test of lines 134 and 202:
  \<open>response and 'response' in response and response['response'] == 1\<close>.\<close>

definition delete_succeeded :: "json \<Rightarrow> error + bool" where
  "delete_succeeded response =
     (if \<not> truthy response then Inr False
      else case py_in (ascii ''response'') response of
             Inl e \<Rightarrow> Inl e
           | Inr False \<Rightarrow> Inr False
           | Inr True \<Rightarrow>
               (case py_getitem response (ascii ''response'') of
                  Inl e \<Rightarrow> Inl e
                | Inr v \<Rightarrow> Inr (py_eq_int v 1)))"

text \<open>
  The loop of \<open>_delete_posts\<close> (lines 194-208) over the rest of the posts, with
  \<open>n = len(posts)\<close>, the index \<open>i\<close> of \<open>enumerate(posts, 1)\<close> and the tally
  \<open>(deleted_count, error_count)\<close>. \<open>post['id']\<close> is read for the progress line, for
  the request and for the failure line; the post does not change, so it is read once.
\<close>

fun delete_posts_loop ::
  "remote \<Rightarrow> session \<Rightarrow> nat \<Rightarrow> nat \<Rightarrow> json list \<Rightarrow> nat \<times> nat \<Rightarrow> world
     \<Rightarrow> (error + nat \<times> nat) \<times> world" where
  "delete_posts_loop api s n i [] tally w = (Inr tally, w)"
| "delete_posts_loop api s n i (post # rest) tally w =
     (case py_getitem post (ascii ''id'') of
        Inl e \<Rightarrow> (Inl e, w)
      | Inr pid \<Rightarrow>
          (let w1 = print_line (MsgDeletingId i n pid) w;
               (response, w2) = make_api_request api s (ascii ''wall.delete'')
                   [(ascii ''owner_id'', user_id s), (ascii ''post_id'', pid)] w1
           in case delete_succeeded response of
                Inl e \<Rightarrow> (Inl e, w2)
              | Inr True \<Rightarrow>
                  delete_posts_loop api s n (i + 1) rest (fst tally + 1, snd tally)
                    (sleep 1000 w2)
              | Inr False \<Rightarrow>
                  delete_posts_loop api s n (i + 1) rest (fst tally, snd tally + 1)
                    (sleep 1000 (print_line (MsgDeleteErrorId pid) w2))))"

text \<open>\<open>_delete_posts\<close> (lines 189-214).\<close>

definition delete_posts ::
  "remote \<Rightarrow> session \<Rightarrow> json list \<Rightarrow> world \<Rightarrow> (error + bool) \<times> world" where
  "delete_posts api s posts w =
     (case delete_posts_loop api s (length posts) 1 posts (0, 0) w of
        (Inl e, w1) \<Rightarrow> (Inl e, w1)
      | (Inr (deleted_count, error_count), w1) \<Rightarrow>
          (Inr (error_count = 0),
           print_line (MsgDoneErrors error_count)
             (print_line (MsgDoneDeleted deleted_count)
                (print_line MsgDoneHeader w1))))"

section \<open>Enumeration\<close>

text \<open>How one pass through the body of \<open>while True\<close> ends: \<open>break\<close> with the posts
  collected, or the next pass with the posts collected and the next offset.\<close>

datatype step = Stop "json list" | Again "json list" int

text \<open>
  One pass through the body of the loop of \<open>get_all_posts\<close> (lines 75-97), with
  \<open>count = 100\<close>.
\<close>

definition get_all_posts_step ::
  "remote \<Rightarrow> session \<Rightarrow> json list \<Rightarrow> int \<Rightarrow> world \<Rightarrow> (error + step) \<times> world" where
  "get_all_posts_step api s all_posts offset w =
     (let count = 100;
          w1 = print_line (MsgLoading offset) w;
          (response, w2) = make_api_request api s (ascii ''wall.get'')
              [(ascii ''owner_id'', user_id s), (ascii ''count'', JInt count),
               (ascii ''offset'', JInt offset)] w1
      in if \<not> truthy response then (Inr (Stop all_posts), print_line MsgFetchError w2)
         else case py_in (ascii ''response'') response of
           Inl e \<Rightarrow> (Inl e, w2)
         | Inr False \<Rightarrow> (Inr (Stop all_posts), print_line MsgFetchError w2)
         | Inr True \<Rightarrow>
            (case py_getitem response (ascii ''response'') of
               Inl e \<Rightarrow> (Inl e, w2)
             | Inr r \<Rightarrow>
                (case py_getitem r (ascii ''items'') of
                   Inl e \<Rightarrow> (Inl e, w2)
                 | Inr posts \<Rightarrow>
                    if \<not> truthy posts then (Inr (Stop all_posts), w2)
                    else (case py_iter posts of
                       Inl e \<Rightarrow> (Inl e, w2)
                     | Inr ps \<Rightarrow>
                        (let w3 = sleep 500 w2
                         in case py_len posts of
                              Inl e \<Rightarrow> (Inl e, w3)
                            | Inr l \<Rightarrow>
                                if int l < count then (Inr (Stop (all_posts @ ps)), w3)
                                else (Inr (Again (all_posts @ ps) (offset + count)), w3))))))"

text \<open>The loop itself; it ends only when a pass breaks or raises, so a remote that
  keeps sending full pages keeps it running: the result is then \<open>None\<close>.\<close>

partial_function (option) get_all_posts_loop ::
  "remote \<Rightarrow> session \<Rightarrow> json list \<Rightarrow> int \<Rightarrow> world \<Rightarrow> ((error + json list) \<times> world) option" where
  "get_all_posts_loop api s all_posts offset w =
     (case get_all_posts_step api s all_posts offset w of
        (Inl e, w1) \<Rightarrow> Some (Inl e, w1)
      | (Inr (Stop ps), w1) \<Rightarrow> Some (Inr ps, w1)
      | (Inr (Again ps off), w1) \<Rightarrow> get_all_posts_loop api s ps off w1)"

declare get_all_posts_loop.simps [code]

text \<open>\<open>get_all_posts\<close> (lines 63-99).\<close>

definition get_all_posts ::
  "remote \<Rightarrow> session \<Rightarrow> world \<Rightarrow> ((error + json list) \<times> world) option" where
  "get_all_posts api s w =
     (if \<not> truthy (access_token s) then Some (Inr [], print_line MsgNeedAuth w)
      else get_all_posts_loop api s [] 0 (print_line MsgCollectStart w))"

section \<open>Fast-confirmed deletion\<close>

text \<open>Lines 140-142: the diagnostic lines for a failed delete call.\<close>

definition print_error_payload :: "json \<Rightarrow> world \<Rightarrow> (error + unit) \<times> world" where
  "print_error_payload response w =
     (case py_in (ascii ''error'') response of
        Inl e \<Rightarrow> (Inl e, w)
      | Inr False \<Rightarrow> (Inr (), w)
      | Inr True \<Rightarrow>
          (case py_getitem response (ascii ''error'') of
             Inl e \<Rightarrow> (Inl e, w)
           | Inr payload \<Rightarrow>
               (case py_getitem payload (ascii ''error_code'') of
                  Inl e \<Rightarrow> (Inl e, w)
                | Inr code \<Rightarrow>
                    (let w1 = print_line (MsgErrorCode code) w
                     in case py_getitem payload (ascii ''error_msg'') of
                          Inl e \<Rightarrow> (Inl e, w1)
                        | Inr msg \<Rightarrow> (Inr (), print_line (MsgErrorMsg msg) w1)))))"

text \<open>The loop of \<open>delete_all_posts\<close> (lines 125-145), with \<open>n = len(posts)\<close>, the
  index \<open>i\<close> and the tally \<open>(deleted_count, error_count)\<close>.\<close>

fun delete_all_posts_loop ::
  "remote \<Rightarrow> session \<Rightarrow> nat \<Rightarrow> nat \<Rightarrow> json list \<Rightarrow> nat \<times> nat \<Rightarrow> world
     \<Rightarrow> (error + nat \<times> nat) \<times> world" where
  "delete_all_posts_loop api s n i [] tally w = (Inr tally, w)"
| "delete_all_posts_loop api s n i (post # rest) tally w =
     (let w1 = print_line (MsgDeleting i n) w
      in case py_getitem post (ascii ''id'') of
           Inl e \<Rightarrow> (Inl e, w1)
         | Inr pid \<Rightarrow>
            (let (response, w2) = make_api_request api s (ascii ''wall.delete'')
                     [(ascii ''owner_id'', user_id s), (ascii ''post_id'', pid)] w1
             in case delete_succeeded response of
                  Inl e \<Rightarrow> (Inl e, w2)
                | Inr True \<Rightarrow>
                    delete_all_posts_loop api s n (i + 1) rest (fst tally + 1, snd tally)
                      (sleep 1000 (print_line (MsgDeleted pid) w2))
                | Inr False \<Rightarrow>
                    (case print_error_payload response (print_line (MsgDeleteError pid) w2) of
                       (Inl e, w3) \<Rightarrow> (Inl e, w3)
                     | (Inr u, w3) \<Rightarrow>
                         delete_all_posts_loop api s n (i + 1) rest (fst tally, snd tally + 1)
                           (sleep 1000 w3))))"

text \<open>Lines 116-151 of \<open>delete_all_posts\<close>: what it does with the posts enumerated.\<close>

definition delete_all_posts_found ::
  "remote \<Rightarrow> session \<Rightarrow> json list \<Rightarrow> world \<Rightarrow> (error + bool) \<times> world" where
  "delete_all_posts_found api s posts w =
     (if posts = [] then (Inr True, print_line MsgNoPosts w)
      else case delete_all_posts_loop api s (length posts) 1 posts (0, 0)
                  (print_line (MsgFoundToDelete (length posts)) w) of
             (Inl e, w1) \<Rightarrow> (Inl e, w1)
           | (Inr (deleted_count, error_count), w1) \<Rightarrow>
               (Inr (error_count = 0),
                print_line (MsgResultErrors error_count)
                  (print_line (MsgResultDeleted deleted_count)
                     (print_line MsgResultHeader w1))))"

text \<open>\<open>delete_all_posts\<close> (lines 101-151).\<close>

definition delete_all_posts ::
  "remote \<Rightarrow> session \<Rightarrow> world \<Rightarrow> ((error + bool) \<times> world) option" where
  "delete_all_posts api s w =
     (if \<not> truthy (access_token s) then Some (Inr False, print_line MsgNeedAuth w)
      else case input AskDeleteAll
                  (print_line MsgWarnNoRestore (print_line MsgWarnIrreversible w)) of
             (Inl e, w1) \<Rightarrow> Some (Inl e, w1)
           | (Inr confirmation, w1) \<Rightarrow>
               if confirmation \<noteq> ascii ''DELETE ALL''
               then Some (Inr False, print_line MsgCancelled w1)
               else (case get_all_posts api s w1 of
                       None \<Rightarrow> None
                     | Some (Inl e, w2) \<Rightarrow> Some (Inl e, w2)
                     | Some (Inr posts, w2) \<Rightarrow> Some (delete_all_posts_found api s posts w2)))"

section \<open>Thoroughly confirmed deletion\<close>

text \<open>
  \<open>time.strftime(fmt, time.localtime(x))\<close> belongs to the standard library and
  depends on the time zone of the host: it is a parameter of the operations that
  print dates, from the format and the value to the text or to the exception raised
  (\<open>TypeError\<close> for a value that is not a number, \<open>OverflowError\<close> or \<open>OSError\<close> for
  a time stamp out of range).
\<close>

type_synonym clock = "pystr \<Rightarrow> json \<Rightarrow> error + pystr"

text \<open>Line 170:
  \<open>post['text'][:100] + "..." if len(post['text']) > 100 else post['text']\<close>.
  Only a string can be sliced and then extended by a string; slicing a dict raises
  \<open>TypeError\<close> (\<open>KeyError\<close> from Python 3.12 on).\<close>

definition text_preview :: "json \<Rightarrow> error + json" where
  "text_preview post =
     (case py_getitem post (ascii ''text'') of
        Inl e \<Rightarrow> Inl e
      | Inr t \<Rightarrow>
          (case py_len t of
             Inl e \<Rightarrow> Inl e
           | Inr l \<Rightarrow>
               if l > 100
               then (case t of
                       JStr text \<Rightarrow> Inr (JStr (take 100 text @ ascii ''...''))
                     | _ \<Rightarrow> Inl TypeError)
               else Inr t))"

text \<open>The preview loop (lines 168-171) over \<open>enumerate(posts[:5], 1)\<close>.\<close>

fun preview_loop :: "clock \<Rightarrow> nat \<Rightarrow> json list \<Rightarrow> world \<Rightarrow> (error + unit) \<times> world" where
  "preview_loop clk i [] w = (Inr (), w)"
| "preview_loop clk i (post # rest) w =
     (case py_getitem post (ascii ''date'') of
        Inl e \<Rightarrow> (Inl e, w)
      | Inr d \<Rightarrow>
          (case clk (ascii ''%Y-%m-%d'') d of
             Inl e \<Rightarrow> (Inl e, w)
           | Inr post_date \<Rightarrow>
               (case text_preview post of
                  Inl e \<Rightarrow> (Inl e, w)
                | Inr preview \<Rightarrow>
                    preview_loop clk (i + 1) rest
                      (print_line (MsgPreview i post_date preview) w))))"

text \<open>Lines 160-187 of \<open>delete_posts_with_confirmation\<close>: what it does with the
  posts enumerated.\<close>

definition delete_posts_with_confirmation_found ::
  "clock \<Rightarrow> remote \<Rightarrow> session \<Rightarrow> json list \<Rightarrow> world \<Rightarrow> (error + bool) \<times> world" where
  "delete_posts_with_confirmation_found clk api s posts w =
     (if posts = [] then (Inr True, print_line MsgNoPosts w)
      else case preview_loop clk 1 (take 5 posts)
                  (print_line MsgFirstFive (print_line (MsgFound (length posts)) w)) of
             (Inl e, w1) \<Rightarrow> (Inl e, w1)
           | (Inr u, w1) \<Rightarrow>
              (case input AskDeleteMyPosts
                      (print_line MsgNoUndo (print_line (MsgWarnAll (length posts)) w1)) of
                 (Inl e, w2) \<Rightarrow> (Inl e, w2)
               | (Inr confirmation1, w2) \<Rightarrow>
                   if confirmation1 \<noteq> ascii ''DELETE MY POSTS''
                   then (Inr False, print_line MsgCancelled w2)
                   else (case input AskYesIAmSure w2 of
                           (Inl e, w3) \<Rightarrow> (Inl e, w3)
                         | (Inr confirmation2, w3) \<Rightarrow>
                             if confirmation2 \<noteq> ascii ''YES I AM SURE''
                             then (Inr False, print_line MsgCancelled w3)
                             else delete_posts api s posts w3)))"

text \<open>\<open>delete_posts_with_confirmation\<close> (lines 153-187).\<close>

definition delete_posts_with_confirmation ::
  "clock \<Rightarrow> remote \<Rightarrow> session \<Rightarrow> world \<Rightarrow> ((error + bool) \<times> world) option" where
  "delete_posts_with_confirmation clk api s w =
     (if \<not> truthy (access_token s) then Some (Inr False, print_line MsgNeedAuth w)
      else case get_all_posts api s w of
             None \<Rightarrow> None
           | Some (Inl e, w1) \<Rightarrow> Some (Inl e, w1)
           | Some (Inr posts, w1) \<Rightarrow>
               Some (delete_posts_with_confirmation_found clk api s posts w1))"

section \<open>Export\<close>

text \<open>The characters \<open>str.strip()\<close> removes: those for which \<open>str.isspace\<close> holds.\<close>

definition py_isspace :: "nat \<Rightarrow> bool" where
  "py_isspace c \<longleftrightarrow>
     (9 \<le> c \<and> c \<le> 13) \<or> (28 \<le> c \<and> c \<le> 32) \<or> c = 133 \<or> c = 160 \<or> c = 5760 \<or>
     (8192 \<le> c \<and> c \<le> 8202) \<or> c = 8232 \<or> c = 8233 \<or> c = 8239 \<or> c = 8287 \<or> c = 12288"

definition py_strip :: "pystr \<Rightarrow> pystr" where
  "py_strip s = rev (dropWhile py_isspace (rev (dropWhile py_isspace s)))"

text \<open>The block of line 224: the Cyrillic labels are written by their code points
  (\<open>U+0414 U+0430 U+0442 U+0430\<close> for the date, \<open>U+0422 U+0435 U+043A U+0441 U+0442\<close>
  for the text), then a line of fifty hyphens.\<close>

definition block :: "pystr \<Rightarrow> pystr \<Rightarrow> pystr" where
  "block post_date text =
     [1044, 1072, 1090, 1072, 58, 32] @ post_date @
     [10, 1058, 1077, 1082, 1089, 1090, 58, 32] @ text @
     [10] @ replicate 50 45"

text \<open>The loop of \<open>extract_text_from_posts\<close> (lines 220-224) with the list \<open>texts\<close>
  built so far. Only a string has \<open>strip\<close>.\<close>

fun extract_text_loop :: "clock \<Rightarrow> json list \<Rightarrow> pystr list \<Rightarrow> error + pystr list" where
  "extract_text_loop clk [] texts = Inr texts"
| "extract_text_loop clk (post # rest) texts =
     (case py_in (ascii ''text'') post of
        Inl e \<Rightarrow> Inl e
      | Inr False \<Rightarrow> extract_text_loop clk rest texts
      | Inr True \<Rightarrow>
          (case py_getitem post (ascii ''text'') of
             Inl e \<Rightarrow> Inl e
           | Inr (JStr text) \<Rightarrow>
               if py_strip text = [] then extract_text_loop clk rest texts
               else (case py_getitem post (ascii ''date'') of
                       Inl e \<Rightarrow> Inl e
                     | Inr d \<Rightarrow>
                         (case clk (ascii ''%Y-%m-%d %H:%M:%S'') d of
                            Inl e \<Rightarrow> Inl e
                          | Inr post_date \<Rightarrow>
                              extract_text_loop clk rest (texts @ [block post_date text])))
           | Inr _ \<Rightarrow> Inl AttributeError))"

text \<open>\<open>extract_text_from_posts\<close> (lines 216-226).\<close>

definition extract_text_from_posts :: "clock \<Rightarrow> json list \<Rightarrow> error + pystr list" where
  "extract_text_from_posts clk posts = extract_text_loop clk posts []"

section \<open>Observing a run\<close>

text \<open>The events a run added to the trace, the API calls among them and what the
  remote answered, the prompts shown and the lines printed.\<close>

definition new_events :: "world \<Rightarrow> world \<Rightarrow> event list" where
  "new_events w w' = drop (length (trace w)) (trace w')"

definition calls_to :: "pystr \<Rightarrow> event list \<Rightarrow> nat" where
  "calls_to m evs = length (filter (\<lambda>r. rmethod r = m) (requests_of evs))"

fun answers_to :: "pystr \<Rightarrow> event list \<Rightarrow> (pystr + json) list" where
  "answers_to m [] = []"
| "answers_to m (Call r a # es) = (if rmethod r = m then a # answers_to m es else answers_to m es)"
| "answers_to m (Print l # es) = answers_to m es"
| "answers_to m (Prompt p # es) = answers_to m es"
| "answers_to m (Sleep n # es) = answers_to m es"

fun prompts_of :: "event list \<Rightarrow> prompt list" where
  "prompts_of [] = []"
| "prompts_of (Prompt p # es) = p # prompts_of es"
| "prompts_of (Call r a # es) = prompts_of es"
| "prompts_of (Print l # es) = prompts_of es"
| "prompts_of (Sleep n # es) = prompts_of es"

fun lines_of :: "event list \<Rightarrow> line list" where
  "lines_of [] = []"
| "lines_of (Print l # es) = l # lines_of es"
| "lines_of (Call r a # es) = lines_of es"
| "lines_of (Prompt p # es) = lines_of es"
| "lines_of (Sleep n # es) = lines_of es"

text \<open>The request \<open>_make_api_request\<close> sends for a method and its parameters.\<close>

definition sent_request :: "session \<Rightarrow> pystr \<Rightarrow> (pystr \<times> json) list \<Rightarrow> request" where
  "sent_request s m params =
     \<lparr>rmethod = m,
      rparams = AList.update (ascii ''v'') (JStr (ascii ''5.131''))
                  (AList.update (ascii ''access_token'') (access_token s) params)\<rparr>"

text \<open>An answer the test of lines 134 and 202 accepts: an object whose field
  \<open>response\<close> compares equal to 1 in Python, which holds for the integer 1 and also
  for \<open>True\<close> and for \<open>1.0\<close> (lemma \<open>delete_succeeded_returned\<close>).\<close>

definition python_sentinel :: "pystr + json \<Rightarrow> bool" where
  "python_sentinel a =
     (case a of
        Inr (JObj d) \<Rightarrow>
          (case map_of d (ascii ''response'') of
             Some v \<Rightarrow> v = JInt 1 \<or> v = JBool True \<or> v = JFloat 1
           | None \<Rightarrow> False)
      | _ \<Rightarrow> False)"

text \<open>What \<open>_make_api_request\<close> returns for an answer of the remote.\<close>

fun returned :: "pystr + json \<Rightarrow> json" where
  "returned (Inl e) = JNull"
| "returned (Inr body) = body"

text \<open>The \<open>wall.delete\<close> request for a post id.\<close>

definition delete_request :: "session \<Rightarrow> json \<Rightarrow> request" where
  "delete_request s pid = sent_request s (ascii ''wall.delete'')
     [(ascii ''owner_id'', user_id s), (ascii ''post_id'', pid)]"

text \<open>A run of a deletion loop over \<open>k\<close> posts from the tally \<open>(d, e)\<close> to the tally
  \<open>(d', e')\<close>: it read no input, showed no prompt, sent \<open>k\<close> requests, all of them
  \<open>wall.delete\<close>, and counted each answer on the side it belongs to.\<close>

definition delete_run :: "nat \<Rightarrow> nat \<Rightarrow> nat \<Rightarrow> nat \<Rightarrow> nat \<Rightarrow> world \<Rightarrow> world \<Rightarrow> bool" where
  "delete_run k d e d' e' w w' \<longleftrightarrow>
     inputs w' = inputs w \<and>
     (\<exists>evs. trace w' = trace w @ evs \<and> prompts_of evs = [] \<and>
        map rmethod (requests_of evs) = replicate k (ascii ''wall.delete'') \<and>
        d' = d + length (filter python_sentinel (answers_to (ascii ''wall.delete'') evs)) \<and>
        e' = e + length (filter (\<lambda>a. \<not> python_sentinel a) (answers_to (ascii ''wall.delete'') evs)))"

text \<open>The \<open>wall.get\<close> request for the page at an offset.\<close>

definition page_request :: "session \<Rightarrow> int \<Rightarrow> request" where
  "page_request s offset = sent_request s (ascii ''wall.get'')
     [(ascii ''owner_id'', user_id s), (ascii ''count'', JInt 100), (ascii ''offset'', JInt offset)]"

text \<open>The error payload of the remote API.\<close>

definition api_error :: "int \<Rightarrow> string \<Rightarrow> json" where
  "api_error code msg =
     JObj [(ascii ''error'',
            JObj [(ascii ''error_code'', JInt code), (ascii ''error_msg'', JStr (ascii msg))])]"

text \<open>A remote source that holds \<open>items\<close> and lays them out in pages: \<open>wall.get\<close> with
  \<open>count\<close> and \<open>offset\<close> answers the items from \<open>offset\<close> on, at most \<open>count\<close> of them,
  in the success envelope; \<open>wall.delete\<close> is answered by \<open>on_delete\<close>. The wall does not
  change while it is read.\<close>

definition wall_server :: "json list \<Rightarrow> (request \<Rightarrow> pystr + json) \<Rightarrow> remote" where
  "wall_server items on_delete history req =
     (if rmethod req = ascii ''wall.get'' then
        (case (map_of (rparams req) (ascii ''count''), map_of (rparams req) (ascii ''offset'')) of
           (Some (JInt count), Some (JInt offset)) \<Rightarrow>
             Inr (JObj [(ascii ''response'',
                         JObj [(ascii ''count'', JInt (int (length items))),
                               (ascii ''items'', JList (take (nat count) (drop (nat offset) items)))])])
         | _ \<Rightarrow> Inr (api_error 100 ''One of the parameters specified was missing or invalid''))
      else if rmethod req = ascii ''wall.delete'' then on_delete req
      else Inr (api_error 3 ''Unknown method passed''))"

text \<open>The events of an enumeration: its own lines, \<open>wall.get\<close> requests and pauses.
  A run of the enumeration adds only such events and reads no input.\<close>

fun enum_event :: "event \<Rightarrow> bool" where
  "enum_event (Print l) = (l = MsgNeedAuth \<or> l = MsgCollectStart \<or> l = MsgFetchError \<or>
       (case l of MsgLoading n \<Rightarrow> True | MsgApiError x \<Rightarrow> True | _ \<Rightarrow> False))"
| "enum_event (Call r a) = (rmethod r = ascii ''wall.get'')"
| "enum_event (Sleep ms) = True"
| "enum_event (Prompt p) = False"

definition enum_run :: "world \<Rightarrow> world \<Rightarrow> bool" where
  "enum_run w w' \<longleftrightarrow> inputs w' = inputs w \<and> (\<exists>evs. trace w' = trace w @ evs \<and> list_all enum_event evs)"

text \<open>The answer of \<open>wall_server\<close> to the page request at offset \<open>off\<close>.\<close>

definition page_answer :: "json list \<Rightarrow> nat \<Rightarrow> pystr + json" where
  "page_answer items off = Inr (JObj [(ascii ''response'',
      JObj [(ascii ''count'', JInt (int (length items))),
            (ascii ''items'', JList (take 100 (drop off items)))])])"

section \<open>The specification's terms and sample inputs\<close>

text \<open>The number of page fetches the specification gives for \<open>N\<close> items in pages of
  size \<open>P\<close>: the ceiling of \<open>N / P\<close>, plus one when \<open>N\<close> is a positive multiple of
  \<open>P\<close>.\<close>

definition spec_page_fetches :: "nat \<Rightarrow> nat \<Rightarrow> nat" where
  "spec_page_fetches N P = (N + P - 1) div P + (if 0 < N \<and> N mod P = 0 then 1 else 0)"

text \<open>The number of \<open>wall.get\<close> requests of an enumeration started in \<open>w\<close>.\<close>

definition page_fetches :: "world \<Rightarrow> ((error + json list) \<times> world) option \<Rightarrow> nat option" where
  "page_fetches w r =
     (case r of None \<Rightarrow> None
      | Some (x, w') \<Rightarrow> Some (calls_to (ascii ''wall.get'') (new_events w w')))"

text \<open>A session after login, a console with nothing typed and nothing printed, a
  remote that refuses every deletion, and a post.\<close>

definition session1 :: session where
  "session1 = \<lparr>access_token = JStr (ascii ''token''), user_id = JInt 7\<rparr>"

definition world0 :: world where
  "world0 = \<lparr>inputs = [], trace = []\<rparr>"

definition refuse_delete :: "request \<Rightarrow> pystr + json" where
  "refuse_delete req = Inr (api_error 15 ''Access denied'')"

definition wall_post :: "int \<Rightarrow> string \<Rightarrow> json" where
  "wall_post n text = JObj [(ascii ''id'', JInt n), (ascii ''date'', JInt 1700000000),
                       (ascii ''text'', JStr (ascii text))]"

text \<open>An answer to a page fetch that is a failure: no response at all (an exception of
  the transport, or the body \<open>null\<close>), or an object without the key \<open>response\<close>.\<close>

fun no_envelope :: "pystr + json \<Rightarrow> bool" where
  "no_envelope (Inl e) = True"
| "no_envelope (Inr JNull) = True"
| "no_envelope (Inr (JObj d)) = (ascii ''response'' \<notin> set (map fst d))"
| "no_envelope (Inr (JBool b)) = False"
| "no_envelope (Inr (JInt n)) = False"
| "no_envelope (Inr (JFloat q)) = False"
| "no_envelope (Inr (JStr t)) = False"
| "no_envelope (Inr (JList xs)) = False"

text \<open>A remote that cannot be reached.\<close>

definition time_out :: remote where
  "time_out history req = Inl (ascii ''Read timed out'')"

text \<open>A console on which the given lines will be typed; a remote that performs every
  deletion; a clock that prints the same day for every integer time stamp.\<close>

definition typed :: "pystr list \<Rightarrow> world" where
  "typed lines = \<lparr>inputs = lines, trace = []\<rparr>"

definition accept_delete :: "request \<Rightarrow> pystr + json" where
  "accept_delete req = Inr (JObj [(ascii ''response'', JInt 1)])"

definition fixed_clock :: clock where
  "fixed_clock fmt d = (case d of JInt n \<Rightarrow> Inr (ascii ''2023-11-14'') | _ \<Rightarrow> Inl TypeError)"

text \<open>The lines of the preview of the thorough path (lines 164-171).\<close>

fun preview_line :: "line \<Rightarrow> bool" where
  "preview_line (MsgPreview i d t) = True"
| "preview_line MsgFirstFive = True"
| "preview_line (MsgFound n) = True"
| "preview_line l = False"

text \<open>The tally of a run read off its trace: a delete call counts as deleted when
  its answer passes the test of lines 134 and 202, as an error otherwise.\<close>

definition deleted_count_of :: "event list \<Rightarrow> nat" where
  "deleted_count_of evs = length (filter python_sentinel (answers_to (ascii ''wall.delete'') evs))"

definition error_count_of :: "event list \<Rightarrow> nat" where
  "error_count_of evs =
     length (filter (\<lambda>a. \<not> python_sentinel a) (answers_to (ascii ''wall.delete'') evs))"

text \<open>A remote that drops the connection on every deletion.\<close>

definition drop_connection :: "request \<Rightarrow> pystr + json" where
  "drop_connection req = Inl (ascii ''Read timed out'')"

text \<open>The number of \<open>wall.delete\<close> requests of a deletion started in \<open>w\<close>.\<close>

definition delete_calls :: "world \<Rightarrow> ((error + bool) \<times> world) option \<Rightarrow> nat option" where
  "delete_calls w r =
     (case r of None \<Rightarrow> None
      | Some (x, w') \<Rightarrow> Some (calls_to (ascii ''wall.delete'') (new_events w w')))"

text \<open>The lines that show the error code and the error message of a payload
  (lines 141 and 142).\<close>

fun error_detail :: "line \<Rightarrow> bool" where
  "error_detail (MsgErrorCode c) = True"
| "error_detail (MsgErrorMsg m) = True"
| "error_detail l = False"

text \<open>A post whose text is not empty after stripping white space; the text of a post,
  the date of its exported block and the block itself; a post the exporter accepts: an
  object whose text, if it has one, is a string, with a date the clock can print.\<close>

definition visible_text :: "json \<Rightarrow> bool" where
  "visible_text p \<longleftrightarrow>
     (case py_getitem p (ascii ''text'') of
        Inr (JStr t) \<Rightarrow> (\<exists>c\<in>set t. \<not> py_isspace c)
      | _ \<Rightarrow> False)"

definition post_text :: "json \<Rightarrow> pystr" where
  "post_text p = (case py_getitem p (ascii ''text'') of Inr (JStr t) \<Rightarrow> t | _ \<Rightarrow> [])"

definition export_date :: "clock \<Rightarrow> json \<Rightarrow> pystr" where
  "export_date clk p =
     (case py_getitem p (ascii ''date'') of
        Inr d \<Rightarrow> (case clk (ascii ''%Y-%m-%d %H:%M:%S'') d of Inr s \<Rightarrow> s | Inl e \<Rightarrow> [])
      | Inl e \<Rightarrow> [])"

definition export_block :: "clock \<Rightarrow> json \<Rightarrow> pystr" where
  "export_block clk p = block (export_date clk p) (post_text p)"

definition exportable :: "clock \<Rightarrow> json \<Rightarrow> bool" where
  "exportable clk p \<longleftrightarrow>
     (case p of
        JObj d \<Rightarrow>
          (case map_of d (ascii ''text'') of
             None \<Rightarrow> True | Some (JStr t) \<Rightarrow> True | Some _ \<Rightarrow> False) \<and>
          (case map_of d (ascii ''date'') of
             None \<Rightarrow> False
           | Some dt \<Rightarrow>
               (case clk (ascii ''%Y-%m-%d %H:%M:%S'') dt of Inl e \<Rightarrow> False | Inr s \<Rightarrow> True))
      | _ \<Rightarrow> False)"

text \<open>A post with a text of 150 characters.\<close>

definition long_post :: json where
  "long_post = JObj [(ascii ''id'', JInt 3), (ascii ''date'', JInt 1700000000),
                     (ascii ''text'', JStr (replicate 150 120))]"

text \<open>The success sentinel as the specification words it: the answer is an object
  whose field \<open>response\<close> is the literal 1.\<close>

definition literal_sentinel :: "pystr + json \<Rightarrow> bool" where
  "literal_sentinel a =
     (case a of
        Inr (JObj d) \<Rightarrow> map_of d (ascii ''response'') = Some (JInt 1)
      | _ \<Rightarrow> False)"

text \<open>An answer of the shape the remote API documents: an object; if it has a field
  \<open>error\<close>, that field is an object with an \<open>error_code\<close> and an \<open>error_msg\<close>.\<close>

definition api_object :: "pystr + json \<Rightarrow> bool" where
  "api_object a =
     (case a of
        Inr (JObj d) \<Rightarrow>
          (case map_of d (ascii ''error'') of
             None \<Rightarrow> True
           | Some (JObj payload) \<Rightarrow>
               map_of payload (ascii ''error_code'') \<noteq> None \<and>
               map_of payload (ascii ''error_msg'') \<noteq> None
           | Some _ \<Rightarrow> False)
      | _ \<Rightarrow> False)"

text \<open>A remote that answers every deletion with \<open>{response: true}\<close>.\<close>

definition answer_true :: "request \<Rightarrow> pystr + json" where
  "answer_true req = Inr (JObj [(ascii ''response'', JBool True)])"

section \<open>Basic facts\<close>

lemma ascii_eq_iff [simp]: "ascii a = ascii b \<longleftrightarrow> a = b"
  by (simp add: ascii_def inj_on_def)

lemma requests_of_append [simp]: "requests_of (xs @ ys) = requests_of xs @ requests_of ys"
  by (induction xs rule: requests_of.induct) simp_all

lemma answers_to_append [simp]: "answers_to m (xs @ ys) = answers_to m xs @ answers_to m ys"
  by (induction m xs rule: answers_to.induct) simp_all

lemma prompts_of_append [simp]: "prompts_of (xs @ ys) = prompts_of xs @ prompts_of ys"
  by (induction xs rule: prompts_of.induct) simp_all

lemma lines_of_append [simp]: "lines_of (xs @ ys) = lines_of xs @ lines_of ys"
  by (induction xs rule: lines_of.induct) simp_all

lemma calls_to_append [simp]: "calls_to m (xs @ ys) = calls_to m xs + calls_to m ys"
  by (simp add: calls_to_def)

lemma calls_to_simps [simp]:
  "calls_to m [] = 0"
  "calls_to m (Call r a # es) = (if rmethod r = m then 1 else 0) + calls_to m es"
  "calls_to m (Print l # es) = calls_to m es"
  "calls_to m (Prompt p # es) = calls_to m es"
  "calls_to m (Sleep n # es) = calls_to m es"
  by (simp_all add: calls_to_def)

lemma calls_to_answers: "calls_to m evs = length (answers_to m evs)"
  by (induction m evs rule: answers_to.induct) simp_all

lemma new_events_append: "trace w' = trace w @ evs \<Longrightarrow> new_events w w' = evs"
  by (simp add: new_events_def)

lemma make_api_request_eq:
  "make_api_request api s m params w =
     (returned (api (requests_of (trace w)) (sent_request s m params)),
      w\<lparr>trace := trace w @
           Call (sent_request s m params) (api (requests_of (trace w)) (sent_request s m params)) #
           (case api (requests_of (trace w)) (sent_request s m params) of
              Inl e \<Rightarrow> [Print (MsgApiError e)] | Inr body \<Rightarrow> [])\<rparr>)"
  by (simp add: make_api_request_def sent_request_def print_line_def Let_def split: sum.split)

lemma py_eq_int_1: "py_eq_int v 1 \<longleftrightarrow> v = JInt 1 \<or> v = JBool True \<or> v = JFloat 1"
  by (cases v) auto

lemma in_keys_iff: "k \<in> fst ` set d \<longleftrightarrow> map_of d k \<noteq> None"
  by (simp add: map_of_eq_None_iff)

lemma delete_succeeded_returned:
  "delete_succeeded (returned a) = Inr True \<longleftrightarrow> python_sentinel a"
  apply (cases a)
   apply (simp add: delete_succeeded_def python_sentinel_def)
  subgoal for body
    apply (cases body)
          apply (auto simp add: delete_succeeded_def python_sentinel_def py_eq_int_1 in_keys_iff split: option.splits sum.splits bool.splits)
    done
  done


lemma delete_succeeded_total:
  "a = JNull \<or> (\<exists>d. a = JObj d) \<Longrightarrow> \<exists>b. delete_succeeded a = Inr b"
  by (auto simp add: delete_succeeded_def in_keys_iff split: option.splits sum.splits bool.splits)


lemma rmethod_delete_request [simp]: "rmethod (delete_request s pid) = ascii ''wall.delete''"
  by (simp add: delete_request_def sent_request_def)

lemma delete_run_Nil: "delete_run 0 d e d e w w"
  by (simp add: delete_run_def)

lemma delete_run_step:
  assumes run: "delete_run k d1 e1 d' e' w1 w'"
      and w1: "inputs w1 = inputs w" "trace w1 = trace w @ pre"
      and pre: "prompts_of pre = []" "requests_of pre = [rq]" "rmethod rq = ascii ''wall.delete''"
               "answers_to (ascii ''wall.delete'') pre = [a]"
      and d1: "d1 = (if python_sentinel a then d + 1 else d)"
      and e1: "e1 = (if python_sentinel a then e else e + 1)"
  shows "delete_run (Suc k) d e d' e' w w'"
proof -
  from run obtain evs where evs: "trace w' = trace w1 @ evs" "prompts_of evs = []"
      "map rmethod (requests_of evs) = replicate k (ascii ''wall.delete'')"
      "d' = d1 + length (filter python_sentinel (answers_to (ascii ''wall.delete'') evs))"
      "e' = e1 + length (filter (\<lambda>a. \<not> python_sentinel a) (answers_to (ascii ''wall.delete'') evs))"
      and inp: "inputs w' = inputs w1"
    by (auto simp add: delete_run_def)
  have "trace w' = trace w @ (pre @ evs)" using evs(1) w1(2) by simp
  moreover have "prompts_of (pre @ evs) = []" using pre(1) evs(2) by simp
  moreover have "map rmethod (requests_of (pre @ evs)) = replicate (Suc k) (ascii ''wall.delete'')"
    using pre(2,3) evs(3) by simp
  moreover have "d' = d + length (filter python_sentinel (answers_to (ascii ''wall.delete'') (pre @ evs)))"
    using pre(4) evs(4) d1 by simp
  moreover have "e' = e + length (filter (\<lambda>a. \<not> python_sentinel a) (answers_to (ascii ''wall.delete'') (pre @ evs)))"
    using pre(4) evs(5) e1 by simp
  ultimately show ?thesis using inp w1(1) unfolding delete_run_def by metis
qed

lemma delete_posts_loop_run:
  "delete_posts_loop api s n i posts (d, e) w = (Inr (d', e'), w') \<Longrightarrow>
   delete_run (length posts) d e d' e' w w'"
proof (induction posts arbitrary: d e w i)
  case Nil
  then show ?case by (simp add: delete_run_Nil)
next
  case (Cons post rest)
  from Cons.prems obtain pid where pid: "py_getitem post (ascii ''id'') = Inr pid"
    by (cases "py_getitem post (ascii ''id'')") simp_all
  define a where "a = api (requests_of (trace w)) (delete_request s pid)"
  define pre where "pre = Print (MsgDeletingId i n pid) # Call (delete_request s pid) a #
      (case a of Inl x \<Rightarrow> [Print (MsgApiError x)] | Inr body \<Rightarrow> [])"
  define w2 where "w2 = w\<lparr>trace := trace w @ pre\<rparr>"
  have call: "make_api_request api s (ascii ''wall.delete'')
      [(ascii ''owner_id'', user_id s), (ascii ''post_id'', pid)]
      (print_line (MsgDeletingId i n pid) w) = (returned a, w2)"
    by (simp add: make_api_request_eq print_line_def a_def pre_def w2_def delete_request_def)
  have pre: "prompts_of pre = []" "requests_of pre = [delete_request s pid]"
      "answers_to (ascii ''wall.delete'') pre = [a]"
    by (simp_all add: pre_def split: sum.split)
  show ?case
  proof (cases "delete_succeeded (returned a)")
    case (Inl x)
    with Cons.prems pid call show ?thesis by simp
  next
    case (Inr b)
    show ?thesis
    proof (cases b)
      case True
      with Inr have ok: "python_sentinel a" by (simp add: delete_succeeded_returned)
      from Cons.prems pid call Inr True
      have "delete_posts_loop api s n (i + 1) rest (d + 1, e) (sleep 1000 w2) = (Inr (d', e'), w')"
        by simp
      from Cons.IH [OF this] have "delete_run (length rest) (d + 1) e d' e' (sleep 1000 w2) w'" .
      then have "delete_run (Suc (length rest)) d e d' e' w w'"
        by (rule delete_run_step [where pre = "pre @ [Sleep 1000]" and a = a and rq = "delete_request s pid"])
           (simp_all add: sleep_def w2_def pre ok)
      then show ?thesis by simp
    next
      case False
      with Inr have ok: "\<not> python_sentinel a" by (simp add: delete_succeeded_returned [symmetric])
      from Cons.prems pid call Inr False
      have "delete_posts_loop api s n (i + 1) rest (d, e + 1)
              (sleep 1000 (print_line (MsgDeleteErrorId pid) w2)) = (Inr (d', e'), w')"
        by simp
      from Cons.IH [OF this]
      have "delete_run (length rest) d (e + 1) d' e' (sleep 1000 (print_line (MsgDeleteErrorId pid) w2)) w'" .
      then have "delete_run (Suc (length rest)) d e d' e' w w'"
        by (rule delete_run_step
              [where pre = "pre @ [Print (MsgDeleteErrorId pid), Sleep 1000]" and a = a
               and rq = "delete_request s pid"])
           (simp_all add: sleep_def print_line_def w2_def pre ok)
      then show ?thesis by simp
    qed
  qed
qed

lemma print_error_payload_run:
  "print_error_payload response w = (r, w') \<Longrightarrow>
   inputs w' = inputs w \<and> (\<exists>evs. trace w' = trace w @ evs \<and> prompts_of evs = [] \<and>
      requests_of evs = [] \<and> answers_to m evs = [])"
  by (auto simp add: print_error_payload_def print_line_def Let_def
      split: sum.splits bool.splits)

lemma delete_all_posts_loop_run:
  "delete_all_posts_loop api s n i posts (d, e) w = (Inr (d', e'), w') \<Longrightarrow>
   delete_run (length posts) d e d' e' w w'"
proof (induction posts arbitrary: d e w i)
  case Nil
  then show ?case by (simp add: delete_run_Nil)
next
  case (Cons post rest)
  from Cons.prems obtain pid where pid: "py_getitem post (ascii ''id'') = Inr pid"
    by (cases "py_getitem post (ascii ''id'')") (simp_all add: Let_def)
  define a where "a = api (requests_of (trace w)) (delete_request s pid)"
  define pre where "pre = Print (MsgDeleting i n) # Call (delete_request s pid) a #
      (case a of Inl x \<Rightarrow> [Print (MsgApiError x)] | Inr body \<Rightarrow> [])"
  define w2 where "w2 = w\<lparr>trace := trace w @ pre\<rparr>"
  have call: "make_api_request api s (ascii ''wall.delete'')
      [(ascii ''owner_id'', user_id s), (ascii ''post_id'', pid)]
      (print_line (MsgDeleting i n) w) = (returned a, w2)"
    by (simp add: make_api_request_eq print_line_def a_def pre_def w2_def delete_request_def)
  have pre: "prompts_of pre = []" "requests_of pre = [delete_request s pid]"
      "answers_to (ascii ''wall.delete'') pre = [a]"
    by (simp_all add: pre_def split: sum.split)
  show ?case
  proof (cases "delete_succeeded (returned a)")
    case (Inl x)
    with Cons.prems pid call show ?thesis by (simp add: Let_def)
  next
    case (Inr b)
    show ?thesis
    proof (cases b)
      case True
      with Inr have ok: "python_sentinel a" by (simp add: delete_succeeded_returned)
      from Cons.prems pid call Inr True
      have "delete_all_posts_loop api s n (i + 1) rest (d + 1, e)
              (sleep 1000 (print_line (MsgDeleted pid) w2)) = (Inr (d', e'), w')"
        by (simp add: Let_def)
      from Cons.IH [OF this]
      have "delete_run (length rest) (d + 1) e d' e' (sleep 1000 (print_line (MsgDeleted pid) w2)) w'" .
      then have "delete_run (Suc (length rest)) d e d' e' w w'"
        by (rule delete_run_step [where pre = "pre @ [Print (MsgDeleted pid), Sleep 1000]"
              and a = a and rq = "delete_request s pid"])
           (simp_all add: sleep_def print_line_def w2_def pre ok)
      then show ?thesis by simp
    next
      case False
      with Inr have ok: "\<not> python_sentinel a" by (simp add: delete_succeeded_returned [symmetric])
      obtain r w3 where pe: "print_error_payload (returned a) (print_line (MsgDeleteError pid) w2) = (r, w3)"
        by (cases "print_error_payload (returned a) (print_line (MsgDeleteError pid) w2)")
      from Cons.prems pid call Inr False pe
      have loop: "delete_all_posts_loop api s n (i + 1) rest (d, e + 1) (sleep 1000 w3) = (Inr (d', e'), w')"
        by (cases r) (simp_all add: Let_def)
      from print_error_payload_run [OF pe, of "ascii ''wall.delete''"]
      obtain evs where evs: "inputs w3 = inputs w2" "trace w3 = trace w2 @ Print (MsgDeleteError pid) # evs"
          "prompts_of evs = []" "requests_of evs = []" "answers_to (ascii ''wall.delete'') evs = []"
        by (auto simp add: print_line_def)
      from Cons.IH [OF loop]
      have "delete_run (length rest) d (e + 1) d' e' (sleep 1000 w3) w'" .
      then have "delete_run (Suc (length rest)) d e d' e' w w'"
        by (rule delete_run_step
              [where pre = "pre @ Print (MsgDeleteError pid) # evs @ [Sleep 1000]" and a = a
               and rq = "delete_request s pid"])
           (simp_all add: sleep_def w2_def pre ok evs)
      then show ?thesis by simp
    qed
  qed
qed

lemma delete_posts_loop_total:
  assumes ids: "\<forall>p\<in>set posts. \<exists>pid. py_getitem p (ascii ''id'') = Inr pid"
      and api: "\<forall>h r. case api h r of Inl x \<Rightarrow> True | Inr body \<Rightarrow> body = JNull \<or> (\<exists>d. body = JObj d)"
  shows "\<exists>d' e' w'. delete_posts_loop api s n i posts (d, e) w = (Inr (d', e'), w')"
  using ids
proof (induction posts arbitrary: d e w i)
  case Nil
  then show ?case by simp
next
  case (Cons post rest)
  then obtain pid where pid: "py_getitem post (ascii ''id'') = Inr pid" by auto
  define a where "a = api (requests_of (trace w)) (delete_request s pid)"
  from api [rule_format, of "requests_of (trace w)" "delete_request s pid"]
  have "returned a = JNull \<or> (\<exists>d. returned a = JObj d)"
    by (cases a) (auto simp add: a_def)
  from delete_succeeded_total [OF this] obtain b where b: "delete_succeeded (returned a) = Inr b" ..
  from Cons.prems have rest: "\<forall>p\<in>set rest. \<exists>pid. py_getitem p (ascii ''id'') = Inr pid" by simp
  show ?case
    using Cons.IH [OF rest] pid b
    by (cases b) (simp_all add: make_api_request_eq print_line_def a_def delete_request_def)
qed

section \<open>Enumeration only reads\<close>

lemma enum_run_refl: "enum_run w w"
  by (simp add: enum_run_def)

lemma enum_run_trans: "enum_run w w1 \<Longrightarrow> enum_run w1 w2 \<Longrightarrow> enum_run w w2"
  by (fastforce simp add: enum_run_def)

lemma rmethod_page_request [simp]: "rmethod (page_request s off) = ascii ''wall.get''"
  by (simp add: page_request_def sent_request_def)

lemma get_all_posts_step_run:
  "get_all_posts_step api s all_posts offset w = (r, w') \<Longrightarrow> enum_run w w'"
  by (auto simp add: get_all_posts_step_def make_api_request_eq print_line_def sleep_def Let_def
        enum_run_def sent_request_def
      split: sum.splits bool.splits if_splits)

lemma get_all_posts_loop_run_aux:
  assumes "get_all_posts_loop api' s' all_posts' offset' w'' = Some y'"
  shows "enum_run w'' (snd y')"
proof (rule get_all_posts_loop.raw_induct
    [where P = "\<lambda>api s all_posts offset w y. enum_run w (snd y)", OF _ assms])
  fix loop :: "remote \<Rightarrow> session \<Rightarrow> json list \<Rightarrow> int \<Rightarrow> world \<Rightarrow> ((error + json list) \<times> world) option"
  fix api s all_posts offset w y
  assume IH: "\<And>api s all_posts offset w y. loop api s all_posts offset w = Some y \<Longrightarrow> enum_run w (snd y)"
  assume eq: "(case get_all_posts_step api s all_posts offset w of
        (Inl e, w1) \<Rightarrow> Some (Inl e, w1)
      | (Inr (Stop ps), w1) \<Rightarrow> Some (Inr ps, w1)
      | (Inr (Again ps off), w1) \<Rightarrow> loop api s ps off w1) = Some y"
  obtain r1 w1 where st: "get_all_posts_step api s all_posts offset w = (r1, w1)"
    by (cases "get_all_posts_step api s all_posts offset w")
  from get_all_posts_step_run [OF st] have run1: "enum_run w w1" .
  show "enum_run w (snd y)"
  proof (cases r1)
    case (Inl e)
    with eq st show ?thesis using run1 by auto
  next
    case (Inr stp)
    show ?thesis
    proof (cases stp)
      case (Stop ps)
      with eq st Inr show ?thesis using run1 by auto
    next
      case (Again ps off)
      with eq st Inr have "loop api s ps off w1 = Some y" by simp
      from IH [OF this] have "enum_run w1 (snd y)" .
      with run1 show ?thesis by (rule enum_run_trans)
    qed
  qed
qed

lemma get_all_posts_loop_run:
  "get_all_posts_loop api s all_posts offset w = Some (r, w') \<Longrightarrow> enum_run w w'"
  using get_all_posts_loop_run_aux [of api s all_posts offset w "(r, w')"] by simp

lemma get_all_posts_run:
  "get_all_posts api s w = Some (r, w') \<Longrightarrow> enum_run w w'"
proof -
  assume a: "get_all_posts api s w = Some (r, w')"
  show ?thesis
  proof (cases "truthy (access_token s)")
    case True
    with a have "get_all_posts_loop api s [] 0 (print_line MsgCollectStart w) = Some (r, w')"
      by (simp add: get_all_posts_def)
    from get_all_posts_loop_run [OF this] have "enum_run (print_line MsgCollectStart w) w'" .
    moreover have "enum_run w (print_line MsgCollectStart w)"
      by (simp add: enum_run_def print_line_def)
    ultimately show ?thesis using enum_run_trans by blast
  next
    case False
    with a show ?thesis by (auto simp add: get_all_posts_def enum_run_def print_line_def)
  qed
qed

lemma enum_events_silent:
  "list_all enum_event evs \<Longrightarrow>
   prompts_of evs = [] \<and> calls_to (ascii ''wall.delete'') evs = 0 \<and>
   calls_to (ascii ''wall.get'') evs = length (requests_of evs)"
proof (induction evs)
  case Nil
  then show ?case by simp
next
  case (Cons ev evs)
  then show ?case by (cases ev) simp_all
qed

section \<open>Enumerating a wall laid out in pages\<close>

lemma page_request_params:
  "map_of (rparams (page_request s off)) (ascii ''count'') = Some (JInt 100)"
  "map_of (rparams (page_request s off)) (ascii ''offset'') = Some (JInt off)"
  by (simp_all add: page_request_def sent_request_def)

lemma wall_server_page:
  "wall_server items on_delete h (page_request s (int off)) = page_answer items off"
  by (simp add: wall_server_def page_request_params page_answer_def)

lemma wall_server_step:
  "get_all_posts_step (wall_server items on_delete) s all_posts (int off) w =
     (let page = take 100 (drop off items);
          w2 = w\<lparr>trace := trace w @ [Print (MsgLoading (int off)),
                   Call (page_request s (int off)) (page_answer items off)]\<rparr>
      in if page = [] then (Inr (Stop all_posts), w2)
         else if length page < 100 then (Inr (Stop (all_posts @ page)), sleep 500 w2)
         else (Inr (Again (all_posts @ page) (int (off + 100))), sleep 500 w2))"
proof -
  have call: "make_api_request (wall_server items on_delete) s (ascii ''wall.get'')
      [(ascii ''owner_id'', user_id s), (ascii ''count'', JInt 100), (ascii ''offset'', JInt (int off))]
      (print_line (MsgLoading (int off)) w) =
      (returned (page_answer items off),
       w\<lparr>trace := trace w @ [Print (MsgLoading (int off)),
                   Call (page_request s (int off)) (page_answer items off)]\<rparr>)"
    by (simp add: make_api_request_eq print_line_def page_request_def [symmetric] wall_server_page)
       (simp add: page_answer_def)
  show ?thesis
    unfolding get_all_posts_step_def Let_def call
    by (simp add: page_answer_def)
qed

lemma wall_server_loop:
  assumes "off \<le> length items"
  shows "\<exists>w'. get_all_posts_loop (wall_server items on_delete) s (take off items) (int off) w
            = Some (Inr items, w') \<and>
          calls_to (ascii ''wall.get'') (new_events w w') = (length items - off) div 100 + 1"
  using assms
proof (induction "length items - off" arbitrary: off w rule: less_induct)
  case less
  define page where "page = take 100 (drop off items)"
  define w2 where "w2 = w\<lparr>trace := trace w @ [Print (MsgLoading (int off)),
                   Call (page_request s (int off)) (page_answer items off)]\<rparr>"
  have step: "get_all_posts_step (wall_server items on_delete) s (take off items) (int off) w =
      (if page = [] then (Inr (Stop (take off items)), w2)
         else if length page < 100 then (Inr (Stop (take off items @ page)), sleep 500 w2)
         else (Inr (Again (take off items @ page) (int (off + 100))), sleep 500 w2))"
    unfolding wall_server_step page_def w2_def Let_def ..
  have ne2: "new_events w w2 = [Print (MsgLoading (int off)),
                   Call (page_request s (int off)) (page_answer items off)]"
    by (simp add: new_events_def w2_def)
  consider (empty) "length items = off" | (short) "off < length items" "length items < off + 100"
    | (full) "off + 100 \<le> length items"
    using less.prems by linarith
  then show ?case
  proof cases
    case empty
    then have "page = []" by (simp add: page_def)
    then have "get_all_posts_loop (wall_server items on_delete) s (take off items) (int off) w
        = Some (Inr (take off items), w2)"
      by (subst get_all_posts_loop.simps) (simp add: step)
    moreover have "take off items = items" using empty by simp
    ultimately show ?thesis
      using empty by (simp add: ne2)
  next
    case short
    then have len: "length page = length items - off" by (simp add: page_def)
    with short have "page \<noteq> []" "length page < 100" by auto
    then have "get_all_posts_loop (wall_server items on_delete) s (take off items) (int off) w
        = Some (Inr (take off items @ page), sleep 500 w2)"
      by (subst get_all_posts_loop.simps) (simp add: step)
    moreover have "page = drop off items" using short by (simp add: page_def)
    then have "take off items @ page = items" by simp
    moreover have "new_events w (sleep 500 w2) = new_events w w2 @ [Sleep 500]"
      by (simp add: new_events_def w2_def sleep_def)
    moreover have "(length items - off) div 100 = 0" using short by simp
    ultimately show ?thesis
      by (simp add: ne2)
  next
    case full
    then have len: "length page = 100" by (simp add: page_def)
    then have ne: "page \<noteq> []" by auto
    have acc: "take off items @ page = take (off + 100) items"
      by (simp add: page_def take_add)
    have unfold: "get_all_posts_loop (wall_server items on_delete) s (take off items) (int off) w
        = get_all_posts_loop (wall_server items on_delete) s (take (off + 100) items) (int (off + 100)) (sleep 500 w2)"
      by (subst get_all_posts_loop.simps) (simp only: step ne len acc if_False less_irrefl prod.case sum.case step.case)
    have "length items - (off + 100) < length items - off" using full by simp
    moreover have "off + 100 \<le> length items" using full by simp
    ultimately obtain w' where w': "get_all_posts_loop (wall_server items on_delete) s (take (off + 100) items)
          (int (off + 100)) (sleep 500 w2) = Some (Inr items, w')"
        "calls_to (ascii ''wall.get'') (new_events (sleep 500 w2) w') = (length items - (off + 100)) div 100 + 1"
      using less.hyps [of "off + 100" "sleep 500 w2"] by blast
    from get_all_posts_loop_run [OF w'(1)] obtain evs where evs: "trace w' = trace (sleep 500 w2) @ evs"
      by (auto simp add: enum_run_def)
    then have "new_events (sleep 500 w2) w' = evs" by (rule new_events_append)
    moreover have "new_events w w' = [Print (MsgLoading (int off)),
                   Call (page_request s (int off)) (page_answer items off), Sleep 500] @ evs"
      using evs by (simp add: new_events_def w2_def sleep_def)
    moreover have "(length items - off) div 100 = Suc ((length items - (off + 100)) div 100)"
      using full le_div_geq [of 100 "length items - off"] by simp
    ultimately show ?thesis using w' unfold by simp
  qed
qed

lemma ascii_Nil_iff [simp]: "ascii a = [] \<longleftrightarrow> a = []"
  by (simp add: ascii_def)

lemma fetch_count_arith:
  "(n::nat) div 100 + 1 = (n + 99) div 100 + (if n mod 100 = 0 then 1 else 0)"
proof -
  define q r where "q = n div 100" and "r = n mod 100"
  have n: "n = 100 * q + r" and r: "r < 100" by (simp_all add: q_def r_def)
  have split: "(n + 99) div 100 = q + (r + 99) div 100"
    unfolding n by (simp add: add.assoc)
  show ?thesis
  proof (cases "r = 0")
    case True
    then show ?thesis using split by (simp add: q_def r_def)
  next
    case False
    then have "100 \<le> r + 99" by simp
    then have "(r + 99) div 100 = Suc ((r + 99 - 100) div 100)"
      by (simp add: le_div_geq)
    moreover have "(r + 99 - 100) div 100 = 0" using r by simp
    ultimately show ?thesis using split False by (simp add: q_def r_def)
  qed
qed

lemma empty_wall_run:
  "get_all_posts (wall_server [] refuse_delete) session1 world0 =
     Some (Inr [], \<lparr>inputs = [], trace = [Print MsgCollectStart, Print (MsgLoading 0),
        Call (page_request session1 0) (page_answer [] 0)]\<rparr>)"
proof -
  have "get_all_posts_step (wall_server [] refuse_delete) session1 [] (int 0) (print_line MsgCollectStart world0)
      = (Inr (Stop []), \<lparr>inputs = [], trace = [Print MsgCollectStart, Print (MsgLoading 0),
        Call (page_request session1 0) (page_answer [] 0)]\<rparr>)"
    unfolding wall_server_step by (simp add: world0_def print_line_def)
  then show ?thesis
    by (subst get_all_posts_def, subst get_all_posts_loop.simps) (simp add: session1_def)
qed

section \<open>Prompts, previews and short walls\<close>

lemma input_Cons:
  "inputs w = x # xs \<Longrightarrow> input p w = (Inr x, w\<lparr>inputs := xs, trace := trace w @ [Prompt p]\<rparr>)"
  by (simp add: input_def)

lemma short_wall_run:
  assumes "items \<noteq> []" and "length items < 100" and "truthy (access_token s)"
  shows "get_all_posts (wall_server items on_delete) s w =
     Some (Inr items,
           w\<lparr>trace := trace w @ [Print MsgCollectStart, Print (MsgLoading 0),
                Call (page_request s 0) (page_answer items 0), Sleep 500]\<rparr>)"
proof -
  have "get_all_posts_step (wall_server items on_delete) s [] (int 0) (print_line MsgCollectStart w)
      = (Inr (Stop items),
         w\<lparr>trace := trace w @ [Print MsgCollectStart, Print (MsgLoading 0),
                Call (page_request s 0) (page_answer items 0), Sleep 500]\<rparr>)"
    unfolding wall_server_step using assms(1,2) by (simp add: print_line_def sleep_def)
  then show ?thesis
    using assms(3) by (subst get_all_posts_def, subst get_all_posts_loop.simps) simp
qed

lemma enum_events_lines:
  "list_all enum_event evs \<Longrightarrow> filter preview_line (lines_of evs) = []"
proof (induction evs)
  case Nil
  then show ?case by simp
next
  case (Cons ev evs)
  then show ?case by (cases ev) (auto split: line.splits)
qed

lemma preview_loop_run:
  "preview_loop clk i ps w = (r, w') \<Longrightarrow>
   inputs w' = inputs w \<and>
   (\<exists>evs. trace w' = trace w @ evs \<and> prompts_of evs = [] \<and> requests_of evs = [])"
proof (induction ps arbitrary: i w)
  case Nil
  then show ?case by simp
next
  case (Cons p ps)
  show ?case
  proof (cases "py_getitem p (ascii ''date'')")
    case (Inl e)
    with Cons.prems show ?thesis by simp
  next
    case d: (Inr d)
    show ?thesis
    proof (cases "clk (ascii ''%Y-%m-%d'') d")
      case (Inl e)
      with Cons.prems d show ?thesis by simp
    next
      case pd: (Inr post_date)
      show ?thesis
      proof (cases "text_preview p")
        case (Inl e)
        with Cons.prems d pd show ?thesis by simp
      next
        case (Inr preview)
        with Cons.prems d pd
        have "preview_loop clk (i + 1) ps (print_line (MsgPreview i post_date preview) w) = (r, w')"
          by simp
        from Cons.IH [OF this] obtain evs where
          "inputs w' = inputs w" "trace w' = trace w @ Print (MsgPreview i post_date preview) # evs"
          "prompts_of evs = []" "requests_of evs = []"
          by (auto simp add: print_line_def)
        then show ?thesis by simp
      qed
    qed
  qed
qed

lemma empty_wall_run_any:
  assumes "truthy (access_token s)"
  shows "get_all_posts (wall_server [] on_delete) s w =
     Some (Inr [],
           w\<lparr>trace := trace w @ [Print MsgCollectStart, Print (MsgLoading 0),
                Call (page_request s 0) (page_answer [] 0)]\<rparr>)"
proof -
  have "get_all_posts_step (wall_server [] on_delete) s [] (int 0) (print_line MsgCollectStart w)
      = (Inr (Stop []),
         w\<lparr>trace := trace w @ [Print MsgCollectStart, Print (MsgLoading 0),
                Call (page_request s 0) (page_answer [] 0)]\<rparr>)"
    unfolding wall_server_step by (simp add: print_line_def)
  then show ?thesis
    using assms by (subst get_all_posts_def, subst get_all_posts_loop.simps) simp
qed

lemma one_post_preview:
  "preview_loop fixed_clock 1 (take 5 [wall_post 1 ''hello''])
     (print_line MsgFirstFive (print_line (MsgFound (length [wall_post 1 ''hello''])) w)) =
   (Inr (), w\<lparr>trace := trace w @ [Print (MsgFound 1), Print MsgFirstFive,
       Print (MsgPreview 1 (ascii ''2023-11-14'') (JStr (ascii ''hello'')))]\<rparr>)"
  by (simp add: wall_post_def text_preview_def fixed_clock_def print_line_def ascii_def)

lemma wall_server_delete [simp]:
  "wall_server items on_delete h (delete_request s pid) = on_delete (delete_request s pid)"
  by (simp add: wall_server_def)

text \<open>The end-to-end scenario of the specification: one post on the wall, the fast
  confirmation given, the remote answering the deletion with the sentinel.\<close>

lemma fast_delete_one_post:
  "delete_all_posts (wall_server [wall_post 1 ''hello''] accept_delete) session1 (typed [ascii ''DELETE ALL'']) =
     Some (Inr True,
       \<lparr>inputs = [],
        trace = [Print MsgWarnIrreversible, Print MsgWarnNoRestore, Prompt AskDeleteAll,
                 Print MsgCollectStart, Print (MsgLoading 0),
                 Call (page_request session1 0) (page_answer [wall_post 1 ''hello''] 0), Sleep 500,
                 Print (MsgFoundToDelete 1), Print (MsgDeleting 1 1),
                 Call (delete_request session1 (JInt 1)) (Inr (JObj [(ascii ''response'', JInt 1)])),
                 Print (MsgDeleted (JInt 1)), Sleep 1000,
                 Print MsgResultHeader, Print (MsgResultDeleted 1), Print (MsgResultErrors 0)]\<rparr>)"
proof -
  have tok: "truthy (access_token session1)" by (simp add: session1_def)
  have enum: "get_all_posts (wall_server [wall_post 1 ''hello''] accept_delete) session1
      \<lparr>inputs = [], trace = [Print MsgWarnIrreversible, Print MsgWarnNoRestore, Prompt AskDeleteAll]\<rparr>
    = Some (Inr [wall_post 1 ''hello''],
        \<lparr>inputs = [],
        trace = [Print MsgWarnIrreversible, Print MsgWarnNoRestore, Prompt AskDeleteAll,
                 Print MsgCollectStart, Print (MsgLoading 0),
                 Call (page_request session1 0) (page_answer [wall_post 1 ''hello''] 0), Sleep 500]\<rparr>)"
    using short_wall_run [OF _ _ tok, of "[wall_post 1 ''hello'']" accept_delete
        "\<lparr>inputs = [], trace = [Print MsgWarnIrreversible, Print MsgWarnNoRestore, Prompt AskDeleteAll]\<rparr>"]
    by simp
  have id: "py_getitem (wall_post 1 ''hello'') (ascii ''id'') = Inr (JInt 1)"
    by (simp add: wall_post_def)
  show ?thesis
    by (simp add: delete_all_posts_def tok input_def print_line_def typed_def enum
        delete_all_posts_found_def id make_api_request_eq delete_request_def [symmetric]
        accept_delete_def delete_succeeded_def sleep_def)
qed

section \<open>The tally\<close>

lemma count_split: "deleted_count_of evs + error_count_of evs = calls_to (ascii ''wall.delete'') evs"
  by (simp add: deleted_count_of_def error_count_of_def calls_to_answers sum_length_filter_compl)

lemma calls_to_replicate:
  "map rmethod (requests_of evs) = replicate k m \<Longrightarrow> calls_to m evs = k"
proof -
  assume a: "map rmethod (requests_of evs) = replicate k m"
  have "calls_to m evs = length (filter (\<lambda>x. x = m) (map rmethod (requests_of evs)))"
    by (simp add: calls_to_def filter_map comp_def)
  also have "\<dots> = k" unfolding a by simp
  finally show ?thesis .
qed

lemma delete_run_counts:
  assumes "delete_run k 0 0 d e w w1" and "trace w' = trace w1 @ map Print ls"
  shows "deleted_count_of (new_events w w') = d \<and> error_count_of (new_events w w') = e \<and>
         calls_to (ascii ''wall.delete'') (new_events w w') = k \<and>
         (\<forall>l\<in>set ls. Print l \<in> set (new_events w w'))"
proof -
  from assms(1) obtain evs where evs: "trace w1 = trace w @ evs"
      "map rmethod (requests_of evs) = replicate k (ascii ''wall.delete'')"
      "d = length (filter python_sentinel (answers_to (ascii ''wall.delete'') evs))"
      "e = length (filter (\<lambda>a. \<not> python_sentinel a) (answers_to (ascii ''wall.delete'') evs))"
    by (auto simp add: delete_run_def)
  have quiet: "answers_to m (map Print ls) = []" "requests_of (map Print ls) = []" for m
    by (induction ls) simp_all
  have new: "new_events w w' = evs @ map Print ls"
    using evs(1) assms(2) by (simp add: new_events_def)
  show ?thesis
    unfolding new using evs(2,3,4) quiet calls_to_replicate [OF evs(2)]
    by (auto simp add: deleted_count_of_def error_count_of_def calls_to_def)
qed

lemma wall_server_shape:
  "case wall_server items refuse_delete h r of
     Inl x \<Rightarrow> True | Inr body \<Rightarrow> body = JNull \<or> (\<exists>d. body = JObj d)"
  by (simp add: wall_server_def refuse_delete_def api_error_def split: option.split json.split)

lemma thorough_delete_refused:
  "delete_posts (wall_server [wall_post 1 ''hello''] refuse_delete) session1 [wall_post 1 ''hello''] world0 =
     (Inr False,
      \<lparr>inputs = [],
       trace = [Print (MsgDeletingId 1 1 (JInt 1)),
                Call (delete_request session1 (JInt 1)) (Inr (api_error 15 ''Access denied'')),
                Print (MsgDeleteErrorId (JInt 1)), Sleep 1000,
                Print MsgDoneHeader, Print (MsgDoneDeleted 0), Print (MsgDoneErrors 1)]\<rparr>)"
proof -
  have id: "py_getitem (wall_post 1 ''hello'') (ascii ''id'') = Inr (JInt 1)"
    by (simp add: wall_post_def)
  have no: "delete_succeeded (api_error 15 ''Access denied'') = Inr False"
    by (simp add: delete_succeeded_def api_error_def)
  show ?thesis
    by (simp add: delete_posts_def id make_api_request_eq delete_request_def [symmetric]
        refuse_delete_def no print_line_def sleep_def world0_def)
qed

lemma fast_delete_refused:
  "delete_all_posts_found (wall_server [wall_post 1 ''hello''] refuse_delete) session1 [wall_post 1 ''hello''] world0 =
     (Inr False,
      \<lparr>inputs = [],
       trace = [Print (MsgFoundToDelete 1), Print (MsgDeleting 1 1),
                Call (delete_request session1 (JInt 1)) (Inr (api_error 15 ''Access denied'')),
                Print (MsgDeleteError (JInt 1)),
                Print (MsgErrorCode (JInt 15)), Print (MsgErrorMsg (JStr (ascii ''Access denied''))),
                Sleep 1000,
                Print MsgResultHeader, Print (MsgResultDeleted 0), Print (MsgResultErrors 1)]\<rparr>)"
proof -
  have id: "py_getitem (wall_post 1 ''hello'') (ascii ''id'') = Inr (JInt 1)"
    by (simp add: wall_post_def)
  have no: "delete_succeeded (api_error 15 ''Access denied'') = Inr False"
    by (simp add: delete_succeeded_def api_error_def)
  have pe: "print_error_payload (api_error 15 ''Access denied'') w =
      (Inr (), w\<lparr>trace := trace w @ [Print (MsgErrorCode (JInt 15)),
                                      Print (MsgErrorMsg (JStr (ascii ''Access denied'')))]\<rparr>)" for w
    by (simp add: print_error_payload_def api_error_def print_line_def)
  show ?thesis
    by (simp add: delete_all_posts_found_def id make_api_request_eq delete_request_def [symmetric]
        refuse_delete_def no pe print_line_def sleep_def world0_def)
qed

lemma python_sentinel_cases:
  "python_sentinel a \<longleftrightarrow>
     literal_sentinel a \<or>
     (\<exists>d. a = Inr (JObj d) \<and>
          (map_of d (ascii ''response'') = Some (JBool True) \<or>
           map_of d (ascii ''response'') = Some (JFloat 1)))"
  by (auto simp add: literal_sentinel_def python_sentinel_def split: sum.splits json.splits option.splits)

lemma literal_sentinel_python: "literal_sentinel a \<Longrightarrow> python_sentinel a"
  by (auto simp add: literal_sentinel_def python_sentinel_def split: sum.splits json.splits)

lemma print_error_payload_object:
  "api_object (Inr (JObj d)) \<Longrightarrow> \<exists>w'. print_error_payload (JObj d) w = (Inr (), w')"
  by (auto simp add: api_object_def print_error_payload_def in_keys_iff Let_def
      split: option.splits json.splits)

lemma delete_all_posts_loop_total:
  assumes ids: "\<forall>p\<in>set posts. \<exists>pid. py_getitem p (ascii ''id'') = Inr pid"
      and api: "\<forall>h r. api_object (api h r)"
  shows "\<exists>d' e' w'. delete_all_posts_loop api s n i posts (d, e) w = (Inr (d', e'), w')"
  using ids
proof (induction posts arbitrary: d e w i)
  case Nil
  then show ?case by simp
next
  case (Cons p rest)
  then obtain pid where pid: "py_getitem p (ascii ''id'') = Inr pid" by auto
  define a where "a = api (requests_of (trace w)) (delete_request s pid)"
  from api have obj: "api_object a" by (simp add: a_def)
  then obtain body where body: "a = Inr (JObj body)"
    by (auto simp add: api_object_def split: sum.splits json.splits)
  from delete_succeeded_total [of "JObj body"] obtain b
    where b: "delete_succeeded (JObj body) = Inr b" by auto
  from Cons.prems have rest: "\<forall>p\<in>set rest. \<exists>pid. py_getitem p (ascii ''id'') = Inr pid" by simp
  have call: "make_api_request api s (ascii ''wall.delete'')
      [(ascii ''owner_id'', user_id s), (ascii ''post_id'', pid)]
      (print_line (MsgDeleting i n) w) =
      (JObj body, w\<lparr>trace := trace w @ [Print (MsgDeleting i n), Call (delete_request s pid) a]\<rparr>)"
    using body by (simp add: make_api_request_eq print_line_def a_def delete_request_def)
  show ?case
  proof (cases b)
    case True
    with Cons.IH [OF rest] pid b call show ?thesis by (simp add: Let_def)
  next
    case False
    from print_error_payload_object [of body] obj body obtain w3 where
      "print_error_payload (JObj body) (print_line (MsgDeleteError pid)
         (w\<lparr>trace := trace w @ [Print (MsgDeleting i n), Call (delete_request s pid) a]\<rparr>))
       = (Inr (), w3)"
      by blast
    with Cons.IH [OF rest] pid b call False show ?thesis by (simp add: Let_def)
  qed
qed

lemma fast_tally_of_returning_run:
  assumes run: "delete_all_posts_found api s posts v = (Inr ok, v')"
  shows "ok = (error_count_of (new_events v v') = 0) \<and>
         (posts \<noteq> [] \<longrightarrow>
            Print (MsgResultDeleted (deleted_count_of (new_events v v'))) \<in> set (new_events v v') \<and>
            Print (MsgResultErrors (error_count_of (new_events v v'))) \<in> set (new_events v v'))"
proof (intro conjI impI)
  show "ok = (error_count_of (new_events v v') = 0)"
  proof (cases "posts = []")
    case True
    with run show ?thesis
      by (auto simp add: delete_all_posts_found_def print_line_def new_events_def error_count_of_def)
  next
    case False
    define v0 where "v0 = print_line (MsgFoundToDelete (length posts)) v"
    from run False obtain d e v1 where
      loop: "delete_all_posts_loop api s (length posts) 1 posts (0, 0) v0 = (Inr (d, e), v1)"
      and res: "ok = (e = 0)" "v' = print_line (MsgResultErrors e)
          (print_line (MsgResultDeleted d) (print_line MsgResultHeader v1))"
      by (auto simp add: delete_all_posts_found_def v0_def split: prod.splits sum.splits)
    have tr: "trace v' = trace v1 @ map Print [MsgResultHeader, MsgResultDeleted d, MsgResultErrors e]"
      by (simp add: res print_line_def)
    from delete_run_counts [OF delete_all_posts_loop_run [OF loop] tr]
    have "error_count_of (new_events v0 v') = e" by simp
    moreover from delete_all_posts_loop_run [OF loop] tr
    have "new_events v v' = Print (MsgFoundToDelete (length posts)) # new_events v0 v'"
      by (auto simp add: delete_run_def new_events_def v0_def print_line_def)
    ultimately show ?thesis using res by (simp add: error_count_of_def)
  qed
next
  assume ne: "posts \<noteq> []"
  define v0 where "v0 = print_line (MsgFoundToDelete (length posts)) v"
  from run ne obtain d e v1 where
    loop: "delete_all_posts_loop api s (length posts) 1 posts (0, 0) v0 = (Inr (d, e), v1)"
    and res: "ok = (e = 0)" "v' = print_line (MsgResultErrors e)
        (print_line (MsgResultDeleted d) (print_line MsgResultHeader v1))"
    by (auto simp add: delete_all_posts_found_def v0_def split: prod.splits sum.splits)
  have tr: "trace v' = trace v1 @ map Print [MsgResultHeader, MsgResultDeleted d, MsgResultErrors e]"
    by (simp add: res print_line_def)
  from delete_run_counts [OF delete_all_posts_loop_run [OF loop] tr]
  have c: "deleted_count_of (new_events v0 v') = d" "error_count_of (new_events v0 v') = e"
      "Print (MsgResultDeleted d) \<in> set (new_events v0 v')"
      "Print (MsgResultErrors e) \<in> set (new_events v0 v')"
    by simp_all
  from delete_all_posts_loop_run [OF loop] tr
  have new: "new_events v v' = Print (MsgFoundToDelete (length posts)) # new_events v0 v'"
    by (auto simp add: delete_run_def new_events_def v0_def print_line_def)
  show "Print (MsgResultDeleted (deleted_count_of (new_events v v'))) \<in> set (new_events v v')"
    unfolding new using c by (simp add: deleted_count_of_def)
  show "Print (MsgResultErrors (error_count_of (new_events v v'))) \<in> set (new_events v v')"
    unfolding new using c by (simp add: error_count_of_def)
qed

lemma delete_all_posts_found_total:
  assumes ids: "\<forall>p\<in>set posts. \<exists>pid. py_getitem p (ascii ''id'') = Inr pid"
      and api: "\<forall>h r. api_object (api h r)"
  shows "\<exists>ok v'. delete_all_posts_found api s posts v = (Inr ok, v')"
proof (cases "posts = []")
  case True
  then show ?thesis by (auto simp add: delete_all_posts_found_def)
next
  case False
  from delete_all_posts_loop_total [OF ids api, of s "length posts" 1 0 0
      "print_line (MsgFoundToDelete (length posts)) v"]
  obtain d e v1 where "delete_all_posts_loop api s (length posts) 1 posts (0, 0)
      (print_line (MsgFoundToDelete (length posts)) v) = (Inr (d, e), v1)"
    by blast
  with False show ?thesis by (simp add: delete_all_posts_found_def)
qed

lemma thorough_tally:
  assumes ids: "\<forall>p\<in>set posts. \<exists>pid. py_getitem p (ascii ''id'') = Inr pid"
      and shape: "\<forall>h r. case api h r of Inl x \<Rightarrow> True
                                | Inr body \<Rightarrow> body = JNull \<or> (\<exists>d. body = JObj d)"
  shows "\<exists>ok w'. delete_posts api s posts w = (Inr ok, w') \<and>
            ok = (error_count_of (new_events w w') = 0) \<and>
            Print (MsgDoneDeleted (deleted_count_of (new_events w w'))) \<in> set (new_events w w') \<and>
            Print (MsgDoneErrors (error_count_of (new_events w w'))) \<in> set (new_events w w')"
proof -
  from delete_posts_loop_total [OF ids shape, of s "length posts" 1 0 0 w]
  obtain d e w1 where loop: "delete_posts_loop api s (length posts) 1 posts (0, 0) w = (Inr (d, e), w1)"
    by blast
  define w' where "w' = print_line (MsgDoneErrors e) (print_line (MsgDoneDeleted d)
      (print_line MsgDoneHeader w1))"
  have tr: "trace w' = trace w1 @ map Print [MsgDoneHeader, MsgDoneDeleted d, MsgDoneErrors e]"
    by (simp add: w'_def print_line_def)
  from delete_run_counts [OF delete_posts_loop_run [OF loop] tr]
  have "deleted_count_of (new_events w w') = d" "error_count_of (new_events w w') = e"
      "Print (MsgDoneDeleted d) \<in> set (new_events w w')"
      "Print (MsgDoneErrors e) \<in> set (new_events w w')"
    by simp_all
  moreover have "delete_posts api s posts w = (Inr (e = 0), w')"
    using loop by (simp add: delete_posts_def w'_def)
  ultimately show ?thesis
    by auto
qed

lemma wall_server_objects:
  "api_object (wall_server items refuse_delete h r)"
  by (simp add: wall_server_def refuse_delete_def api_error_def api_object_def
      split: option.split json.split)

lemma thorough_delete_true:
  "delete_posts (wall_server [] answer_true) session1 [wall_post 1 ''hello''] world0 =
     (Inr True,
      \<lparr>inputs = [],
       trace = [Print (MsgDeletingId 1 1 (JInt 1)),
                Call (delete_request session1 (JInt 1)) (Inr (JObj [(ascii ''response'', JBool True)])),
                Sleep 1000,
                Print MsgDoneHeader, Print (MsgDoneDeleted 1), Print (MsgDoneErrors 0)]\<rparr>)"
proof -
  have id: "py_getitem (wall_post 1 ''hello'') (ascii ''id'') = Inr (JInt 1)"
    by (simp add: wall_post_def)
  have yes: "delete_succeeded (JObj [(ascii ''response'', JBool True)]) = Inr True"
    by (simp add: delete_succeeded_def)
  show ?thesis
    by (simp add: delete_posts_def id make_api_request_eq delete_request_def [symmetric]
        answer_true_def yes print_line_def sleep_def world0_def)
qed

lemma fast_delete_true:
  "delete_all_posts_found (wall_server [] answer_true) session1 [wall_post 1 ''hello''] world0 =
     (Inr True,
      \<lparr>inputs = [],
       trace = [Print (MsgFoundToDelete 1), Print (MsgDeleting 1 1),
                Call (delete_request session1 (JInt 1)) (Inr (JObj [(ascii ''response'', JBool True)])),
                Print (MsgDeleted (JInt 1)), Sleep 1000,
                Print MsgResultHeader, Print (MsgResultDeleted 1), Print (MsgResultErrors 0)]\<rparr>)"
proof -
  have id: "py_getitem (wall_post 1 ''hello'') (ascii ''id'') = Inr (JInt 1)"
    by (simp add: wall_post_def)
  have yes: "delete_succeeded (JObj [(ascii ''response'', JBool True)]) = Inr True"
    by (simp add: delete_succeeded_def)
  show ?thesis
    by (simp add: delete_all_posts_found_def id make_api_request_eq delete_request_def [symmetric]
        answer_true_def yes print_line_def sleep_def world0_def)
qed

section \<open>Every post gets its delete call on the thorough path\<close>

lemma delete_posts_calls_each_post:
  assumes ids: "\<forall>p\<in>set posts. \<exists>pid. py_getitem p (ascii ''id'') = Inr pid"
      and shape: "\<forall>h r. case api h r of Inl x \<Rightarrow> True
                                | Inr body \<Rightarrow> body = JNull \<or> (\<exists>d. body = JObj d)"
  shows "\<exists>ok w'. delete_posts api s posts w = (Inr ok, w') \<and>
            calls_to (ascii ''wall.delete'') (new_events w w') = length posts \<and>
            deleted_count_of (new_events w w') + error_count_of (new_events w w') = length posts"
proof -
  from delete_posts_loop_total [OF ids shape, of s "length posts" 1 0 0 w]
  obtain d e w1 where loop: "delete_posts_loop api s (length posts) 1 posts (0, 0) w = (Inr (d, e), w1)"
    by blast
  define w' where "w' = print_line (MsgDoneErrors e) (print_line (MsgDoneDeleted d)
      (print_line MsgDoneHeader w1))"
  have tr: "trace w' = trace w1 @ map Print [MsgDoneHeader, MsgDoneDeleted d, MsgDoneErrors e]"
    by (simp add: w'_def print_line_def)
  from delete_run_counts [OF delete_posts_loop_run [OF loop] tr]
  have "calls_to (ascii ''wall.delete'') (new_events w w') = length posts" by simp
  moreover have "delete_posts api s posts w = (Inr (e = 0), w')"
    using loop by (simp add: delete_posts_def w'_def)
  ultimately show ?thesis using count_split [of "new_events w w'"] by auto
qed

lemma transport_failure_recovered_on_thorough_path:
  assumes "py_getitem post (ascii ''id'') = Inr pid"
      and "api (requests_of (trace w)) (delete_request s pid) = Inl e"
  shows "delete_posts_loop api s n i (post # rest) tally w =
         delete_posts_loop api s n (i + 1) rest (fst tally, snd tally + 1)
           (w\<lparr>trace := trace w @
                [Print (MsgDeletingId i n pid), Call (delete_request s pid) (Inl e),
                 Print (MsgApiError e), Print (MsgDeleteErrorId pid), Sleep 1000]\<rparr>)"
  using assms
  by (simp add: make_api_request_eq delete_request_def [symmetric] print_line_def sleep_def
      delete_succeeded_def)

section \<open>The exporter\<close>

lemma py_strip_empty_iff: "py_strip t = [] \<longleftrightarrow> (\<forall>c\<in>set t. py_isspace c)"
proof
  assume "py_strip t = []"
  then have all: "\<forall>c\<in>set (dropWhile py_isspace t). py_isspace c"
    by (simp add: py_strip_def)
  show "\<forall>c\<in>set t. py_isspace c"
  proof (cases "dropWhile py_isspace t")
    case Nil
    then show ?thesis by simp
  next
    case (Cons x xs)
    then have "\<not> py_isspace x" using hd_dropWhile [of py_isspace t] by simp
    moreover have "py_isspace x" using all Cons by simp
    ultimately show ?thesis by simp
  qed
next
  assume "\<forall>c\<in>set t. py_isspace c"
  then show "py_strip t = []" by (auto simp add: py_strip_def dest: set_dropWhileD)
qed

lemma extract_text_loop_exportable:
  assumes "\<forall>p\<in>set posts. exportable clk p"
  shows "extract_text_loop clk posts texts =
         Inr (texts @ map (export_block clk) (filter visible_text posts))"
  using assms
proof (induction posts arbitrary: texts)
  case Nil
  then show ?case by simp
next
  case (Cons p posts)
  from Cons.prems have rest: "\<forall>p\<in>set posts. exportable clk p" and p: "exportable clk p"
    by simp_all
  from p obtain d where d: "p = JObj d" by (cases p) (simp_all add: exportable_def)
  from p d obtain dt s where dt: "map_of d (ascii ''date'') = Some dt"
      "clk (ascii ''%Y-%m-%d %H:%M:%S'') dt = Inr s"
    by (auto simp add: exportable_def split: option.splits sum.splits)
  show ?case
  proof (cases "map_of d (ascii ''text'')")
    case None
    then have "visible_text p = False" "py_in (ascii ''text'') p = Inr False"
      by (simp_all add: visible_text_def d in_keys_iff)
    then show ?thesis using Cons.IH [OF rest] by simp
  next
    case (Some v)
    with p d obtain t where t: "v = JStr t"
      by (cases v) (simp_all add: exportable_def)
    have inp: "py_in (ascii ''text'') p = Inr True" "py_getitem p (ascii ''text'') = Inr (JStr t)"
      using Some t by (simp_all add: d in_keys_iff)
    show ?thesis
    proof (cases "py_strip t = []")
      case True
      then have "visible_text p = False"
        by (simp add: visible_text_def inp py_strip_empty_iff)
      then show ?thesis using Cons.IH [OF rest] inp True by simp
    next
      case False
      then have vis: "visible_text p"
        by (simp add: visible_text_def inp py_strip_empty_iff)
      have date: "py_getitem p (ascii ''date'') = Inr dt" by (simp add: d dt)
      have blk: "export_block clk p = block s t"
        by (simp add: export_block_def export_date_def post_text_def inp date dt)
      show ?thesis
        using Cons.IH [OF rest, of "texts @ [block s t]"] inp False vis blk date dt
        by simp
    qed
  qed
qed

section \<open>The diagnostics of a failed deletion\<close>

lemma delete_posts_loop_lines:
  "delete_posts_loop api s n i posts tally w = (r, w') \<Longrightarrow>
   \<exists>evs. trace w' = trace w @ evs \<and> filter error_detail (lines_of evs) = []"
proof (induction posts arbitrary: i tally w)
  case Nil
  then show ?case by simp
next
  case (Cons p posts)
  show ?case
  proof (cases "py_getitem p (ascii ''id'')")
    case (Inl e)
    with Cons.prems show ?thesis by simp
  next
    case (Inr pid)
    define a where "a = api (requests_of (trace w)) (delete_request s pid)"
    define pre where "pre = Print (MsgDeletingId i n pid) # Call (delete_request s pid) a #
        (case a of Inl x \<Rightarrow> [Print (MsgApiError x)] | Inr body \<Rightarrow> [])"
    define w2 where "w2 = w\<lparr>trace := trace w @ pre\<rparr>"
    have call: "make_api_request api s (ascii ''wall.delete'')
        [(ascii ''owner_id'', user_id s), (ascii ''post_id'', pid)]
        (print_line (MsgDeletingId i n pid) w) = (returned a, w2)"
      by (simp add: make_api_request_eq print_line_def a_def pre_def w2_def delete_request_def)
    have pre: "filter error_detail (lines_of pre) = []"
      by (simp add: pre_def split: sum.split)
    show ?thesis
    proof (cases "delete_succeeded (returned a)")
      case (Inl e)
      with Cons.prems Inr call have "w' = w2" by simp
      then show ?thesis using pre by (simp add: w2_def)
    next
      case ok: (Inr b)
      define w3 where "w3 = (if b then sleep 1000 w2
          else sleep 1000 (print_line (MsgDeleteErrorId pid) w2))"
      from Cons.prems Inr call ok obtain t' where
        "delete_posts_loop api s n (i + 1) posts t' w3 = (r, w')"
        by (cases b) (simp_all add: w3_def)
      from Cons.IH [OF this] obtain evs where evs: "trace w' = trace w3 @ evs"
          "filter error_detail (lines_of evs) = []"
        by blast
      have "\<exists>mid. trace w3 = trace w @ pre @ mid \<and> filter error_detail (lines_of mid) = []"
        by (cases b) (simp_all add: w3_def w2_def sleep_def print_line_def)
      then obtain mid where mid: "trace w3 = trace w @ pre @ mid"
          "filter error_detail (lines_of mid) = []"
        by blast
      have "trace w' = trace w @ (pre @ mid @ evs)" using evs(1) mid(1) by simp
      moreover have "filter error_detail (lines_of (pre @ mid @ evs)) = []"
        using pre mid(2) evs(2) by simp
      ultimately show ?thesis by blast
    qed
  qed
qed

text \<open>Whatever the posts and the remote, the thorough path prints neither an error
  code nor an error message.\<close>

lemma delete_posts_prints_no_error_detail:
  "filter error_detail (lines_of (new_events w (snd (delete_posts api s posts w)))) = []"
proof -
  obtain r w1 where loop: "delete_posts_loop api s (length posts) 1 posts (0, 0) w = (r, w1)"
    by (cases "delete_posts_loop api s (length posts) 1 posts (0, 0) w")
  from delete_posts_loop_lines [OF loop] obtain evs where evs: "trace w1 = trace w @ evs"
      "filter error_detail (lines_of evs) = []"
    by blast
  show ?thesis
  proof (cases r)
    case (Inl e)
    with loop have "snd (delete_posts api s posts w) = w1" by (simp add: delete_posts_def)
    then show ?thesis using evs by (simp add: new_events_def)
  next
    case (Inr t)
    with loop have "trace (snd (delete_posts api s posts w)) =
        trace w1 @ [Print MsgDoneHeader, Print (MsgDoneDeleted (fst t)), Print (MsgDoneErrors (snd t))]"
      by (cases t) (simp add: delete_posts_def print_line_def)
    then show ?thesis using evs by (simp add: new_events_def)
  qed
qed

text \<open>The fast path prints both for a structured error payload, and goes on.\<close>

lemma error_payload_printed_on_fast_path:
  assumes "py_getitem p (ascii ''id'') = Inr pid"
      and "api (requests_of (trace w)) (delete_request s pid) =
             Inr (JObj [(ascii ''error'',
                        JObj [(ascii ''error_code'', code), (ascii ''error_msg'', msg)])])"
  shows "delete_all_posts_loop api s n i (p # rest) tally w =
         delete_all_posts_loop api s n (i + 1) rest (fst tally, snd tally + 1)
           (w\<lparr>trace := trace w @
                [Print (MsgDeleting i n),
                 Call (delete_request s pid)
                   (Inr (JObj [(ascii ''error'',
                               JObj [(ascii ''error_code'', code), (ascii ''error_msg'', msg)])])),
                 Print (MsgDeleteError pid), Print (MsgErrorCode code), Print (MsgErrorMsg msg),
                 Sleep 1000]\<rparr>)"
  using assms
  by (simp add: make_api_request_eq delete_request_def [symmetric] print_line_def sleep_def
      delete_succeeded_def print_error_payload_def)

section \<open>Claims\<close>

text \<open>
  C3, as amended. For a remote wall of \<open>N\<close> items served in pages of the fixed size
  100, enumeration returns exactly the \<open>N\<close> items, and the number of page fetches is the
  ceiling of \<open>N / 100\<close> plus one extra fetch exactly when \<open>N\<close> is a multiple of 100,
  zero included: an empty wall costs one fetch.
\<close>

theorem get_all_posts_paged_wall:
  "truthy (access_token s) \<Longrightarrow>
   \<exists>w'. get_all_posts (wall_server items on_delete) s w = Some (Inr items, w') \<and>
        calls_to (ascii ''wall.get'') (new_events w w') =
          (length items + 99) div 100 + (if length items mod 100 = 0 then 1 else 0)"
proof -
  assume tok: "truthy (access_token s)"
  from wall_server_loop [of 0 items on_delete s "print_line MsgCollectStart w"]
  obtain w' where w': "get_all_posts_loop (wall_server items on_delete) s [] 0
        (print_line MsgCollectStart w) = Some (Inr items, w')"
      "calls_to (ascii ''wall.get'') (new_events (print_line MsgCollectStart w) w') = length items div 100 + 1"
    by auto
  from get_all_posts_loop_run [OF w'(1)] obtain evs
    where evs: "trace w' = trace (print_line MsgCollectStart w) @ evs"
    by (auto simp add: enum_run_def)
  then have "new_events (print_line MsgCollectStart w) w' = evs" by (rule new_events_append)
  moreover have "new_events w w' = Print MsgCollectStart # evs"
    using evs by (simp add: new_events_def print_line_def)
  ultimately have "calls_to (ascii ''wall.get'') (new_events w w') = length items div 100 + 1"
    using w'(2) by simp
  also have "\<dots> = (length items + 99) div 100 + (if length items mod 100 = 0 then 1 else 0)"
    by (rule fetch_count_arith)
  finally have "calls_to (ascii ''wall.get'') (new_events w w') =
      (length items + 99) div 100 + (if length items mod 100 = 0 then 1 else 0)" .
  moreover have "get_all_posts (wall_server items on_delete) s w = Some (Inr items, w')"
    using tok w'(1) by (simp add: get_all_posts_def)
  ultimately show ?thesis by blast
qed

theorem get_all_posts_paged_wall_witness:
  "truthy (access_token session1) \<and>
   (\<exists>w'. get_all_posts (wall_server [wall_post 1 ''hello'', wall_post 2 ''bye''] refuse_delete) session1 world0
            = Some (Inr [wall_post 1 ''hello'', wall_post 2 ''bye''], w') \<and>
         calls_to (ascii ''wall.get'') (new_events world0 w') = 1)"
  using get_all_posts_paged_wall [of session1 "[wall_post 1 ''hello'', wall_post 2 ''bye'']" refuse_delete world0]
  by (simp add: session1_def)

text \<open>
  C3 as stated fails on the empty wall: enumeration makes one page fetch there, where
  the stated count (the extra fetch only for a positive multiple) is zero.
\<close>

theorem get_all_posts_empty_wall_one_fetch:
  "page_fetches world0 (get_all_posts (wall_server [] refuse_delete) session1 world0) = Some 1 \<and>
   page_fetches world0 (get_all_posts (wall_server [] refuse_delete) session1 world0)
     \<noteq> Some (spec_page_fetches 0 100)"
  unfolding empty_wall_run
  by (simp add: page_fetches_def spec_page_fetches_def new_events_def world0_def)

text \<open>
  C7. At any point of the enumeration (whatever has been collected and whatever the
  offset), a page fetch that yields no response, or a response without the success
  envelope, ends the loop: the posts collected so far are returned, as a value and not
  as an exception, after the diagnostic line.
\<close>

theorem get_all_posts_stops_on_failure:
  "no_envelope (api (requests_of (trace w)) (page_request s offset)) \<Longrightarrow>
   get_all_posts_loop api s all_posts offset w =
     Some (Inr all_posts,
           w\<lparr>trace := trace w @
               [Print (MsgLoading offset),
                Call (page_request s offset) (api (requests_of (trace w)) (page_request s offset))] @
               (case api (requests_of (trace w)) (page_request s offset) of
                  Inl e \<Rightarrow> [Print (MsgApiError e)] | Inr body \<Rightarrow> []) @
               [Print MsgFetchError]\<rparr>)"
proof -
  define a where "a = api (requests_of (trace w)) (page_request s offset)"
  assume "no_envelope (api (requests_of (trace w)) (page_request s offset))"
  then have ne: "no_envelope a" by (simp add: a_def)
  have call: "make_api_request api s (ascii ''wall.get'')
      [(ascii ''owner_id'', user_id s), (ascii ''count'', JInt 100), (ascii ''offset'', JInt offset)]
      (print_line (MsgLoading offset) w) =
      (returned a,
       w\<lparr>trace := trace w @ [Print (MsgLoading offset), Call (page_request s offset) a] @
            (case a of Inl e \<Rightarrow> [Print (MsgApiError e)] | Inr body \<Rightarrow> [])\<rparr>)"
    by (simp add: make_api_request_eq print_line_def page_request_def [symmetric] a_def)
  have stop: "\<not> truthy (returned a) \<or> py_in (ascii ''response'') (returned a) = Inr False"
    using ne by (cases a rule: no_envelope.cases) simp_all
  have "get_all_posts_step api s all_posts offset w =
      (Inr (Stop all_posts),
       w\<lparr>trace := trace w @ [Print (MsgLoading offset), Call (page_request s offset) a] @
            (case a of Inl e \<Rightarrow> [Print (MsgApiError e)] | Inr body \<Rightarrow> []) @ [Print MsgFetchError]\<rparr>)"
    unfolding get_all_posts_step_def Let_def call using stop
    by (auto simp add: print_line_def)
  then show ?thesis
    by (subst get_all_posts_loop.simps) (simp add: a_def)
qed

theorem get_all_posts_stops_on_failure_witness:
  "no_envelope (time_out (requests_of (trace world0)) (page_request session1 100)) \<and>
   get_all_posts_loop time_out session1 [wall_post 1 ''hello''] 100 world0 =
     Some (Inr [wall_post 1 ''hello''],
           \<lparr>inputs = [],
            trace = [Print (MsgLoading 100),
                     Call (page_request session1 100) (Inl (ascii ''Read timed out'')),
                     Print (MsgApiError (ascii ''Read timed out'')),
                     Print MsgFetchError]\<rparr>)"
  using get_all_posts_stops_on_failure [of time_out world0 session1 100 "[wall_post 1 ''hello'']"]
  by (simp add: time_out_def world0_def)

text \<open>
  C10. When the enumeration yields no post, both deletion operations return \<open>True\<close>
  without any delete call; on the thorough path nothing of the preview is printed, no
  confirmation is asked and no typed line is consumed. (On the fast path the
  enumeration is only reached after the confirmation phrase.)
\<close>

theorem empty_wall_nothing_to_delete:
  assumes "truthy (access_token s)"
      and "inputs w = ascii ''DELETE ALL'' # rest"
      and "get_all_posts api s (snd (input AskDeleteAll
              (print_line MsgWarnNoRestore (print_line MsgWarnIrreversible w)))) = Some (Inr [], w1)"
      and "get_all_posts api s v = Some (Inr [], v1)"
  shows "delete_all_posts api s w = Some (Inr True, print_line MsgNoPosts w1) \<and>
         calls_to (ascii ''wall.delete'') (new_events w (print_line MsgNoPosts w1)) = 0 \<and>
         delete_posts_with_confirmation clk api s v = Some (Inr True, print_line MsgNoPosts v1) \<and>
         calls_to (ascii ''wall.delete'') (new_events v (print_line MsgNoPosts v1)) = 0 \<and>
         prompts_of (new_events v (print_line MsgNoPosts v1)) = [] \<and>
         filter preview_line (lines_of (new_events v (print_line MsgNoPosts v1))) = [] \<and>
         inputs (print_line MsgNoPosts v1) = inputs v"
proof -
  define w0 where "w0 = w\<lparr>inputs := rest, trace := trace w @
      [Print MsgWarnIrreversible, Print MsgWarnNoRestore, Prompt AskDeleteAll]\<rparr>"
  have inp: "input AskDeleteAll (print_line MsgWarnNoRestore (print_line MsgWarnIrreversible w))
      = (Inr (ascii ''DELETE ALL''), w0)"
    using assms(2) by (simp add: input_def print_line_def w0_def)
  with assms(3) have en: "get_all_posts api s w0 = Some (Inr [], w1)" by simp
  from get_all_posts_run [OF en] obtain evs where evs: "trace w1 = trace w0 @ evs"
      "list_all enum_event evs"
    by (auto simp add: enum_run_def)
  have new: "new_events w (print_line MsgNoPosts w1) =
      [Print MsgWarnIrreversible, Print MsgWarnNoRestore, Prompt AskDeleteAll] @ evs @ [Print MsgNoPosts]"
    using evs(1) by (simp add: new_events_def print_line_def w0_def)
  have fast: "delete_all_posts api s w = Some (Inr True, print_line MsgNoPosts w1)"
    using assms(1) inp en by (simp add: delete_all_posts_def delete_all_posts_found_def)
  have fast0: "calls_to (ascii ''wall.delete'') (new_events w (print_line MsgNoPosts w1)) = 0"
    unfolding new using enum_events_silent [OF evs(2)] by simp
  from get_all_posts_run [OF assms(4)] obtain evs' where evs': "trace v1 = trace v @ evs'"
      "list_all enum_event evs'" and same: "inputs v1 = inputs v"
    by (auto simp add: enum_run_def)
  have new': "new_events v (print_line MsgNoPosts v1) = evs' @ [Print MsgNoPosts]"
    using evs'(1) by (simp add: new_events_def print_line_def)
  have slow: "delete_posts_with_confirmation clk api s v = Some (Inr True, print_line MsgNoPosts v1)"
    using assms(1,4)
    by (simp add: delete_posts_with_confirmation_def delete_posts_with_confirmation_found_def)
  have slow0: "calls_to (ascii ''wall.delete'') (new_events v (print_line MsgNoPosts v1)) = 0"
      "prompts_of (new_events v (print_line MsgNoPosts v1)) = []"
      "filter preview_line (lines_of (new_events v (print_line MsgNoPosts v1))) = []"
    unfolding new' using enum_events_silent [OF evs'(2)] enum_events_lines [OF evs'(2)] by simp_all
  have "inputs (print_line MsgNoPosts v1) = inputs v" using same by (simp add: print_line_def)
  with fast fast0 slow slow0 show ?thesis by simp
qed

theorem empty_wall_nothing_to_delete_witness:
  "truthy (access_token session1) \<and>
   inputs (typed [ascii ''DELETE ALL'']) = [ascii ''DELETE ALL''] \<and>
   get_all_posts (wall_server [] refuse_delete) session1 world0 =
     Some (Inr [],
           \<lparr>inputs = [],
            trace = [Print MsgCollectStart, Print (MsgLoading 0),
                     Call (page_request session1 0) (page_answer [] 0)]\<rparr>) \<and>
   delete_all_posts (wall_server [] refuse_delete) session1 (typed [ascii ''DELETE ALL'']) =
     Some (Inr True,
           \<lparr>inputs = [],
            trace = [Print MsgWarnIrreversible, Print MsgWarnNoRestore, Prompt AskDeleteAll,
                     Print MsgCollectStart, Print (MsgLoading 0),
                     Call (page_request session1 0) (page_answer [] 0),
                     Print MsgNoPosts]\<rparr>) \<and>
   delete_posts_with_confirmation fixed_clock (wall_server [] refuse_delete) session1 world0 =
     Some (Inr True,
           \<lparr>inputs = [],
            trace = [Print MsgCollectStart, Print (MsgLoading 0),
                     Call (page_request session1 0) (page_answer [] 0),
                     Print MsgNoPosts]\<rparr>)"
proof -
  have tok: "truthy (access_token session1)" by (simp add: session1_def)
  have inp: "inputs (typed [ascii ''DELETE ALL'']) = ascii ''DELETE ALL'' # []"
    by (simp add: typed_def)
  have fast: "get_all_posts (wall_server [] refuse_delete) session1
      (snd (input AskDeleteAll
         (print_line MsgWarnNoRestore (print_line MsgWarnIrreversible (typed [ascii ''DELETE ALL''])))))
      = Some (Inr [],
           \<lparr>inputs = [],
            trace = [Print MsgWarnIrreversible, Print MsgWarnNoRestore, Prompt AskDeleteAll,
                     Print MsgCollectStart, Print (MsgLoading 0),
                     Call (page_request session1 0) (page_answer [] 0)]\<rparr>)"
    by (simp add: empty_wall_run_any [OF tok] input_def print_line_def typed_def)
  have slow: "get_all_posts (wall_server [] refuse_delete) session1 world0 =
     Some (Inr [],
           \<lparr>inputs = [],
            trace = [Print MsgCollectStart, Print (MsgLoading 0),
                     Call (page_request session1 0) (page_answer [] 0)]\<rparr>)"
    by (simp add: empty_wall_run_any [OF tok] world0_def)
  from empty_wall_nothing_to_delete [OF tok inp fast slow, of fixed_clock] tok inp slow
  show ?thesis by (simp add: print_line_def)
qed

text \<open>
  C4. With a session that holds a token, the fast gate reads one line. Any line other
  than the exact phrase \<open>DELETE ALL\<close> ends the operation with \<open>False\<close>: one prompt was
  shown and no API request at all was sent, so no delete call and no change of the remote
  state. The exact phrase, and only it, lets the operation go on to enumerate the wall
  and to delete what it finds.
\<close>

theorem delete_all_posts_gate:
  assumes tok: "truthy (access_token s)" and inp: "inputs w = confirmation # rest"
  shows "\<exists>wa wc.
      prompts_of (new_events w wa) = [AskDeleteAll] \<and> inputs wa = rest \<and>
      requests_of (new_events w wa) = [] \<and>
      prompts_of (new_events w wc) = [AskDeleteAll] \<and> inputs wc = rest \<and>
      requests_of (new_events w wc) = [] \<and>
      delete_all_posts api s w =
        (if confirmation \<noteq> ascii ''DELETE ALL'' then Some (Inr False, wa)
         else (case get_all_posts api s wc of
                 None \<Rightarrow> None
               | Some (Inl e, w2) \<Rightarrow> Some (Inl e, w2)
               | Some (Inr posts, w2) \<Rightarrow> Some (delete_all_posts_found api s posts w2)))"
proof -
  define wc where "wc = w\<lparr>inputs := rest,
      trace := trace w @ [Print MsgWarnIrreversible, Print MsgWarnNoRestore, Prompt AskDeleteAll]\<rparr>"
  define wa where "wa = print_line MsgCancelled wc"
  have ask: "input AskDeleteAll (print_line MsgWarnNoRestore (print_line MsgWarnIrreversible w))
      = (Inr confirmation, wc)"
    using inp by (simp add: input_def print_line_def wc_def)
  have run: "delete_all_posts api s w =
        (if confirmation \<noteq> ascii ''DELETE ALL'' then Some (Inr False, wa)
         else (case get_all_posts api s wc of
                 None \<Rightarrow> None
               | Some (Inl e, w2) \<Rightarrow> Some (Inl e, w2)
               | Some (Inr posts, w2) \<Rightarrow> Some (delete_all_posts_found api s posts w2)))"
    using tok ask by (simp add: delete_all_posts_def wa_def)
  have "prompts_of (new_events w wa) = [AskDeleteAll]" "inputs wa = rest"
      "requests_of (new_events w wa) = []"
      "prompts_of (new_events w wc) = [AskDeleteAll]" "inputs wc = rest"
      "requests_of (new_events w wc) = []"
    by (simp_all add: new_events_def wa_def wc_def print_line_def)
  with run show ?thesis by blast
qed

theorem delete_all_posts_gate_witness:
  "truthy (access_token session1) \<and>
   inputs (typed [ascii ''delete all'']) = [ascii ''delete all''] \<and>
   (\<exists>wa. prompts_of (new_events (typed [ascii ''delete all'']) wa) = [AskDeleteAll] \<and>
         inputs wa = [] \<and>
         requests_of (new_events (typed [ascii ''delete all'']) wa) = [] \<and>
         delete_all_posts (wall_server [wall_post 1 ''hello''] accept_delete) session1
            (typed [ascii ''delete all'']) = Some (Inr False, wa))"
proof -
  have tok: "truthy (access_token session1)" by (simp add: session1_def)
  have inp: "inputs (typed [ascii ''delete all'']) = ascii ''delete all'' # []"
    by (simp add: typed_def)
  from delete_all_posts_gate [OF tok inp, of "wall_server [wall_post 1 ''hello''] accept_delete"] tok inp
  show ?thesis by auto
qed

text \<open>
  C5. With a session that holds a token, a non-empty enumeration and a preview that
  printed, the thorough gate asks for \<open>DELETE MY POSTS\<close> first. A different first line
  ends the operation with \<open>False\<close> with only that one prompt shown and the next typed
  line left unread; a different second line ends it with \<open>False\<close> after both prompts, in
  that order; in both cases no delete call was sent. Exactly when both lines match does
  the operation hand all the enumerated posts to the deletion loop, no delete call
  having been sent before.
\<close>

theorem thorough_gate:
  assumes tok: "truthy (access_token s)"
      and enum: "get_all_posts api s w = Some (Inr posts, w1)"
      and ne: "posts \<noteq> []"
      and prev: "preview_loop clk 1 (take 5 posts)
                   (print_line MsgFirstFive (print_line (MsgFound (length posts)) w1)) = (Inr (), w2)"
      and inp: "inputs w = confirmation1 # confirmation2 # rest"
  shows "\<exists>wa wb wc.
      prompts_of (new_events w wa) = [AskDeleteMyPosts] \<and> inputs wa = confirmation2 # rest \<and>
      calls_to (ascii ''wall.delete'') (new_events w wa) = 0 \<and>
      prompts_of (new_events w wb) = [AskDeleteMyPosts, AskYesIAmSure] \<and> inputs wb = rest \<and>
      calls_to (ascii ''wall.delete'') (new_events w wb) = 0 \<and>
      prompts_of (new_events w wc) = [AskDeleteMyPosts, AskYesIAmSure] \<and> inputs wc = rest \<and>
      calls_to (ascii ''wall.delete'') (new_events w wc) = 0 \<and>
      delete_posts_with_confirmation clk api s w =
        (if confirmation1 \<noteq> ascii ''DELETE MY POSTS'' then Some (Inr False, wa)
         else if confirmation2 \<noteq> ascii ''YES I AM SURE'' then Some (Inr False, wb)
         else Some (delete_posts api s posts wc))"
proof -
  from get_all_posts_run [OF enum] obtain evs where evs: "trace w1 = trace w @ evs"
      "list_all enum_event evs" and in1: "inputs w1 = inputs w"
    by (auto simp add: enum_run_def)
  from preview_loop_run [OF prev] obtain pvs where pvs:
      "trace w2 = trace w1 @ Print (MsgFound (length posts)) # Print MsgFirstFive # pvs"
      "prompts_of pvs = []" "requests_of pvs = []" and in2: "inputs w2 = inputs w1"
    by (auto simp add: print_line_def)
  define before where "before = evs @ Print (MsgFound (length posts)) # Print MsgFirstFive # pvs @
      [Print (MsgWarnAll (length posts)), Print MsgNoUndo]"
  have quiet: "prompts_of before = []" "calls_to (ascii ''wall.delete'') before = 0"
    using enum_events_silent [OF evs(2)] pvs(2,3) by (simp_all add: before_def calls_to_def)
  define w3 where "w3 = w2\<lparr>inputs := confirmation2 # rest,
      trace := trace w @ before @ [Prompt AskDeleteMyPosts]\<rparr>"
  define wc where "wc = w2\<lparr>inputs := rest,
      trace := trace w @ before @ [Prompt AskDeleteMyPosts, Prompt AskYesIAmSure]\<rparr>"
  define wa where "wa = print_line MsgCancelled w3"
  define wb where "wb = print_line MsgCancelled wc"
  have ask1: "input AskDeleteMyPosts
      (print_line MsgNoUndo (print_line (MsgWarnAll (length posts)) w2)) = (Inr confirmation1, w3)"
    using inp in1 in2 evs(1) pvs(1) by (simp add: input_def print_line_def w3_def before_def)
  have ask2: "input AskYesIAmSure w3 = (Inr confirmation2, wc)"
    by (simp add: input_def w3_def wc_def)
  have run: "delete_posts_with_confirmation clk api s w =
        (if confirmation1 \<noteq> ascii ''DELETE MY POSTS'' then Some (Inr False, wa)
         else if confirmation2 \<noteq> ascii ''YES I AM SURE'' then Some (Inr False, wb)
         else Some (delete_posts api s posts wc))"
    using tok enum ne prev ask1 ask2
    by (simp add: delete_posts_with_confirmation_def delete_posts_with_confirmation_found_def
        wa_def wb_def)
  have na: "new_events w wa = before @ [Prompt AskDeleteMyPosts, Print MsgCancelled]"
    by (simp add: new_events_def wa_def w3_def print_line_def)
  have nb: "new_events w wb = before @ [Prompt AskDeleteMyPosts, Prompt AskYesIAmSure, Print MsgCancelled]"
    by (simp add: new_events_def wb_def wc_def print_line_def)
  have nc: "new_events w wc = before @ [Prompt AskDeleteMyPosts, Prompt AskYesIAmSure]"
    by (simp add: new_events_def wc_def)
  have "prompts_of (new_events w wa) = [AskDeleteMyPosts]" "inputs wa = confirmation2 # rest"
      "calls_to (ascii ''wall.delete'') (new_events w wa) = 0"
      "prompts_of (new_events w wb) = [AskDeleteMyPosts, AskYesIAmSure]" "inputs wb = rest"
      "calls_to (ascii ''wall.delete'') (new_events w wb) = 0"
      "prompts_of (new_events w wc) = [AskDeleteMyPosts, AskYesIAmSure]" "inputs wc = rest"
      "calls_to (ascii ''wall.delete'') (new_events w wc) = 0"
    unfolding na nb nc using quiet
    by (simp_all add: wa_def wb_def wc_def w3_def print_line_def)
  with run show ?thesis by blast
qed

theorem thorough_gate_witness:
  "truthy (access_token session1) \<and>
   [wall_post 1 ''hello''] \<noteq> [] \<and>
   inputs (typed [ascii ''DELETE MY POSTS'', ascii ''yes'']) = [ascii ''DELETE MY POSTS'', ascii ''yes''] \<and>
   (\<exists>wa wb wc.
      prompts_of (new_events (typed [ascii ''DELETE MY POSTS'', ascii ''yes'']) wa) = [AskDeleteMyPosts] \<and>
      inputs wa = [ascii ''yes''] \<and>
      calls_to (ascii ''wall.delete'') (new_events (typed [ascii ''DELETE MY POSTS'', ascii ''yes'']) wa) = 0 \<and>
      prompts_of (new_events (typed [ascii ''DELETE MY POSTS'', ascii ''yes'']) wb)
        = [AskDeleteMyPosts, AskYesIAmSure] \<and>
      inputs wb = [] \<and>
      calls_to (ascii ''wall.delete'') (new_events (typed [ascii ''DELETE MY POSTS'', ascii ''yes'']) wb) = 0 \<and>
      delete_posts_with_confirmation fixed_clock (wall_server [wall_post 1 ''hello''] accept_delete) session1
          (typed [ascii ''DELETE MY POSTS'', ascii ''yes'']) = Some (Inr False, wb))"
proof -
  have tok: "truthy (access_token session1)" by (simp add: session1_def)
  have ne: "[wall_post 1 ''hello''] \<noteq> []" by simp
  have inp: "inputs (typed [ascii ''DELETE MY POSTS'', ascii ''yes''])
      = ascii ''DELETE MY POSTS'' # ascii ''yes'' # []"
    by (simp add: typed_def)
  note enum = short_wall_run [OF ne _ tok, of accept_delete "typed [ascii ''DELETE MY POSTS'', ascii ''yes'']", simplified]
  from thorough_gate [OF tok enum ne one_post_preview inp] tok inp
  show ?thesis by auto
qed

text \<open>
  C6, as amended. A delete call is counted as deleted only when the answer is an object
  whose field \<open>response\<close> compares equal to 1 in Python: the integer 1, and also \<open>True\<close>
  and \<open>1.0\<close>. Every other answer is counted as an error: on both paths a structured error
  payload and any other object, on the thorough path also a transport failure. The
  deletion returns, the counts it prints are these, and its result is \<open>True\<close> exactly
  when the error count is zero: on the thorough path for posts that carry an id and a
  remote that answers with objects or not at all, on the fast path for such posts and a
  remote that answers with objects of the documented shape. (What the fast path does
  with an answer that is missing is the subject of C1 and C2.)
\<close>

theorem tally_counts_answers_equal_to_one:
  assumes ids: "\<forall>p\<in>set posts. \<exists>pid. py_getitem p (ascii ''id'') = Inr pid"
      and shape: "\<forall>h r. case api h r of Inl x \<Rightarrow> True
                                | Inr body \<Rightarrow> body = JNull \<or> (\<exists>d. body = JObj d)"
  shows "(\<exists>ok w'. delete_posts api s posts w = (Inr ok, w') \<and>
            ok = (error_count_of (new_events w w') = 0) \<and>
            Print (MsgDoneDeleted (deleted_count_of (new_events w w'))) \<in> set (new_events w w') \<and>
            Print (MsgDoneErrors (error_count_of (new_events w w'))) \<in> set (new_events w w')) \<and>
         ((\<forall>h r. api_object (api h r)) \<longrightarrow>
            (\<exists>ok v'. delete_all_posts_found api s posts v = (Inr ok, v') \<and>
               ok = (error_count_of (new_events v v') = 0) \<and>
               (posts \<noteq> [] \<longrightarrow>
                  Print (MsgResultDeleted (deleted_count_of (new_events v v'))) \<in> set (new_events v v') \<and>
                  Print (MsgResultErrors (error_count_of (new_events v v'))) \<in> set (new_events v v'))))"
proof (intro conjI impI)
  show "\<exists>ok w'. delete_posts api s posts w = (Inr ok, w') \<and>
            ok = (error_count_of (new_events w w') = 0) \<and>
            Print (MsgDoneDeleted (deleted_count_of (new_events w w'))) \<in> set (new_events w w') \<and>
            Print (MsgDoneErrors (error_count_of (new_events w w'))) \<in> set (new_events w w')"
    using ids shape by (rule thorough_tally)
next
  assume objects: "\<forall>h r. api_object (api h r)"
  from delete_all_posts_found_total [OF ids objects, of s v]
  obtain ok v' where run: "delete_all_posts_found api s posts v = (Inr ok, v')" by blast
  from fast_tally_of_returning_run [OF run] run
  show "\<exists>ok v'. delete_all_posts_found api s posts v = (Inr ok, v') \<and>
               ok = (error_count_of (new_events v v') = 0) \<and>
               (posts \<noteq> [] \<longrightarrow>
                  Print (MsgResultDeleted (deleted_count_of (new_events v v'))) \<in> set (new_events v v') \<and>
                  Print (MsgResultErrors (error_count_of (new_events v v'))) \<in> set (new_events v v'))"
    by blast
qed

theorem tally_counts_answers_equal_to_one_witness:
  "(\<exists>pid. py_getitem (wall_post 1 ''hello'') (ascii ''id'') = Inr pid) \<and>
   (\<forall>h r. case wall_server [wall_post 1 ''hello''] refuse_delete h r of
             Inl x \<Rightarrow> True | Inr body \<Rightarrow> body = JNull \<or> (\<exists>d. body = JObj d)) \<and>
   (\<forall>h r. api_object (wall_server [wall_post 1 ''hello''] refuse_delete h r)) \<and>
   (\<exists>ok w'. delete_posts (wall_server [wall_post 1 ''hello''] refuse_delete) session1
                [wall_post 1 ''hello''] world0 = (Inr ok, w') \<and>
            ok = (error_count_of (new_events world0 w') = 0) \<and>
            Print (MsgDoneDeleted (deleted_count_of (new_events world0 w'))) \<in> set (new_events world0 w') \<and>
            Print (MsgDoneErrors (error_count_of (new_events world0 w'))) \<in> set (new_events world0 w')) \<and>
   (\<exists>ok v'. delete_all_posts_found (wall_server [wall_post 1 ''hello''] refuse_delete) session1
                [wall_post 1 ''hello''] world0 = (Inr ok, v') \<and>
            ok = (error_count_of (new_events world0 v') = 0) \<and>
            Print (MsgResultDeleted (deleted_count_of (new_events world0 v'))) \<in> set (new_events world0 v') \<and>
            Print (MsgResultErrors (error_count_of (new_events world0 v'))) \<in> set (new_events world0 v'))"
proof -
  have ids: "\<forall>p\<in>set [wall_post 1 ''hello'']. \<exists>pid. py_getitem p (ascii ''id'') = Inr pid"
    by (simp add: wall_post_def)
  have shape: "\<forall>h r. case wall_server [wall_post 1 ''hello''] refuse_delete h r of
             Inl x \<Rightarrow> True | Inr body \<Rightarrow> body = JNull \<or> (\<exists>d. body = JObj d)"
    using wall_server_shape by blast
  have objects: "\<forall>h r. api_object (wall_server [wall_post 1 ''hello''] refuse_delete h r)"
    using wall_server_objects by blast
  from tally_counts_answers_equal_to_one [OF ids shape, of session1 world0 world0] ids shape objects
  show ?thesis by simp
qed

text \<open>
  C6 as stated fails for the answer \<open>{response: true}\<close>: its field is not the literal 1,
  and both paths count the call as deleted and return \<open>True\<close>.
\<close>

theorem true_is_counted_as_deleted:
  "literal_sentinel (Inr (JObj [(ascii ''response'', JBool True)])) = False \<and>
   delete_posts (wall_server [] answer_true) session1 [wall_post 1 ''hello''] world0 =
     (Inr True,
      \<lparr>inputs = [],
       trace = [Print (MsgDeletingId 1 1 (JInt 1)),
                Call (delete_request session1 (JInt 1)) (Inr (JObj [(ascii ''response'', JBool True)])),
                Sleep 1000,
                Print MsgDoneHeader, Print (MsgDoneDeleted 1), Print (MsgDoneErrors 0)]\<rparr>) \<and>
   delete_all_posts_found (wall_server [] answer_true) session1 [wall_post 1 ''hello''] world0 =
     (Inr True,
      \<lparr>inputs = [],
       trace = [Print (MsgFoundToDelete 1), Print (MsgDeleting 1 1),
                Call (delete_request session1 (JInt 1)) (Inr (JObj [(ascii ''response'', JBool True)])),
                Print (MsgDeleted (JInt 1)), Sleep 1000,
                Print MsgResultHeader, Print (MsgResultDeleted 1), Print (MsgResultErrors 0)]\<rparr>)"
  unfolding thorough_delete_true fast_delete_true by (simp add: literal_sentinel_def)

text \<open>
  C1 says that bulk deletion over \<open>N\<close> posts issues exactly \<open>N\<close> delete calls whatever
  their outcome, never stops early, and ends with a tally that adds up to \<open>N\<close>. The
  thorough path does so (\<open>delete_posts_calls_each_post\<close>). The fast path does not: with
  two posts on the wall and a remote that drops the connection on the first deletion,
  \<open>delete_all_posts\<close> raises \<open>TypeError\<close> at line 140 (\<open>'error' in response\<close> with
  \<open>response\<close> being \<open>None\<close>) after one delete call, and no tally is printed.
\<close>

theorem fast_delete_stops_at_transport_failure:
  "delete_all_posts (wall_server [wall_post 1 ''hello'', wall_post 2 ''bye''] drop_connection) session1
       (typed [ascii ''DELETE ALL'']) =
     Some (Inl TypeError,
       \<lparr>inputs = [],
        trace = [Print MsgWarnIrreversible, Print MsgWarnNoRestore, Prompt AskDeleteAll,
                 Print MsgCollectStart, Print (MsgLoading 0),
                 Call (page_request session1 0) (page_answer [wall_post 1 ''hello'', wall_post 2 ''bye''] 0),
                 Sleep 500,
                 Print (MsgFoundToDelete 2), Print (MsgDeleting 1 2),
                 Call (delete_request session1 (JInt 1)) (Inl (ascii ''Read timed out'')),
                 Print (MsgApiError (ascii ''Read timed out'')),
                 Print (MsgDeleteError (JInt 1))]\<rparr>) \<and>
   delete_calls (typed [ascii ''DELETE ALL''])
     (delete_all_posts (wall_server [wall_post 1 ''hello'', wall_post 2 ''bye''] drop_connection) session1
        (typed [ascii ''DELETE ALL''])) = Some 1"
proof -
  have tok: "truthy (access_token session1)" by (simp add: session1_def)
  have enum: "get_all_posts (wall_server [wall_post 1 ''hello'', wall_post 2 ''bye''] drop_connection) session1
      \<lparr>inputs = [], trace = [Print MsgWarnIrreversible, Print MsgWarnNoRestore, Prompt AskDeleteAll]\<rparr>
    = Some (Inr [wall_post 1 ''hello'', wall_post 2 ''bye''],
        \<lparr>inputs = [],
        trace = [Print MsgWarnIrreversible, Print MsgWarnNoRestore, Prompt AskDeleteAll,
                 Print MsgCollectStart, Print (MsgLoading 0),
                 Call (page_request session1 0) (page_answer [wall_post 1 ''hello'', wall_post 2 ''bye''] 0),
                 Sleep 500]\<rparr>)"
    using short_wall_run [OF _ _ tok, of "[wall_post 1 ''hello'', wall_post 2 ''bye'']" drop_connection
        "\<lparr>inputs = [], trace = [Print MsgWarnIrreversible, Print MsgWarnNoRestore, Prompt AskDeleteAll]\<rparr>"]
    by simp
  have id: "py_getitem (wall_post 1 ''hello'') (ascii ''id'') = Inr (JInt 1)"
    by (simp add: wall_post_def)
  have run: "delete_all_posts (wall_server [wall_post 1 ''hello'', wall_post 2 ''bye''] drop_connection) session1
       (typed [ascii ''DELETE ALL'']) =
     Some (Inl TypeError,
       \<lparr>inputs = [],
        trace = [Print MsgWarnIrreversible, Print MsgWarnNoRestore, Prompt AskDeleteAll,
                 Print MsgCollectStart, Print (MsgLoading 0),
                 Call (page_request session1 0) (page_answer [wall_post 1 ''hello'', wall_post 2 ''bye''] 0),
                 Sleep 500,
                 Print (MsgFoundToDelete 2), Print (MsgDeleting 1 2),
                 Call (delete_request session1 (JInt 1)) (Inl (ascii ''Read timed out'')),
                 Print (MsgApiError (ascii ''Read timed out'')),
                 Print (MsgDeleteError (JInt 1))]\<rparr>)"
    by (simp add: delete_all_posts_def tok input_def print_line_def typed_def enum
        delete_all_posts_found_def id make_api_request_eq delete_request_def [symmetric]
        drop_connection_def delete_succeeded_def print_error_payload_def)
  show ?thesis
    unfolding run by (simp add: delete_calls_def new_events_def typed_def)
qed

text \<open>
  C2 says that a transport failure of a delete call is recorded as a failure of that
  post and the loop goes on, never ending in an uncaught exception. On the fast path,
  whenever the remote gives no response to the delete call of a post, the loop ends
  there with \<open>TypeError\<close>, after the line that reports the failure of the post; the
  thorough path goes on with the next post
  (\<open>transport_failure_recovered_on_thorough_path\<close>).
\<close>

theorem transport_failure_raises_on_fast_path:
  assumes "py_getitem post (ascii ''id'') = Inr pid"
      and "api (requests_of (trace w)) (delete_request s pid) = Inl e"
  shows "delete_all_posts_loop api s n i (post # rest) tally w =
         (Inl TypeError,
          w\<lparr>trace := trace w @
                [Print (MsgDeleting i n), Call (delete_request s pid) (Inl e),
                 Print (MsgApiError e), Print (MsgDeleteError pid)]\<rparr>)"
  using assms
  by (simp add: make_api_request_eq delete_request_def [symmetric] print_line_def
      delete_succeeded_def print_error_payload_def)

theorem transport_failure_raises_on_fast_path_witness:
  "py_getitem (wall_post 1 ''hello'') (ascii ''id'') = Inr (JInt 1) \<and>
   wall_server [] drop_connection (requests_of (trace world0)) (delete_request session1 (JInt 1))
     = Inl (ascii ''Read timed out'') \<and>
   delete_all_posts_loop (wall_server [] drop_connection) session1 2 1
       [wall_post 1 ''hello'', wall_post 2 ''bye''] (0, 0) world0 =
     (Inl TypeError,
      \<lparr>inputs = [],
       trace = [Print (MsgDeleting 1 2),
                Call (delete_request session1 (JInt 1)) (Inl (ascii ''Read timed out'')),
                Print (MsgApiError (ascii ''Read timed out'')),
                Print (MsgDeleteError (JInt 1))]\<rparr>)"
proof -
  have id: "py_getitem (wall_post 1 ''hello'') (ascii ''id'') = Inr (JInt 1)"
    by (simp add: wall_post_def)
  have fail: "wall_server [] drop_connection (requests_of (trace world0)) (delete_request session1 (JInt 1))
      = Inl (ascii ''Read timed out'')"
    by (simp add: drop_connection_def)
  from transport_failure_raises_on_fast_path
      [where api = "wall_server [] drop_connection" and w = world0 and s = session1
         and n = 2 and i = 1 and rest = "[wall_post 2 ''bye'']" and tally = "(0, 0)", OF id fail]
    id fail
  show ?thesis by (simp add: world0_def)
qed

text \<open>
  C8 says that the error code and the error message of a failed delete call are shown
  on both paths. For one post and a remote that answers the deletion with the payload
  \<open>{error: {error_code: 15, error_msg: Access denied}}\<close>, the thorough path prints the
  failure of the post without the code and the message; the fast path prints both.
  The same holds in general: \<open>delete_posts_prints_no_error_detail\<close> and
  \<open>error_payload_printed_on_fast_path\<close>.
\<close>

theorem thorough_path_prints_no_error_detail:
  "lines_of (trace (snd (delete_posts (wall_server [wall_post 1 ''hello''] refuse_delete) session1
       [wall_post 1 ''hello''] world0))) =
     [MsgDeletingId 1 1 (JInt 1), MsgDeleteErrorId (JInt 1),
      MsgDoneHeader, MsgDoneDeleted 0, MsgDoneErrors 1] \<and>
   lines_of (trace (snd (delete_all_posts_found (wall_server [wall_post 1 ''hello''] refuse_delete) session1
       [wall_post 1 ''hello''] world0))) =
     [MsgFoundToDelete 1, MsgDeleting 1 1, MsgDeleteError (JInt 1),
      MsgErrorCode (JInt 15), MsgErrorMsg (JStr (ascii ''Access denied'')),
      MsgResultHeader, MsgResultDeleted 0, MsgResultErrors 1]"
  unfolding thorough_delete_refused fast_delete_refused by simp

text \<open>
  C9. For posts the exporter accepts, \<open>extract_text_from_posts\<close> returns one block for
  each post whose text is not empty after stripping white space, in the order of the
  posts, and nothing for the others; every block contains the whole text of its post.
  In the preview of the thorough gate a text of more than 100 characters is printed as
  its first 100 characters followed by three dots, a shorter one as it is.
\<close>

theorem export_keeps_visible_posts:
  assumes "\<forall>p\<in>set posts. exportable clk p"
  shows "extract_text_from_posts clk posts =
           Inr (map (export_block clk) (filter visible_text posts)) \<and>
         (\<forall>p. \<exists>before after. export_block clk p = before @ post_text p @ after) \<and>
         (\<forall>p t. py_getitem p (ascii ''text'') = Inr (JStr t) \<longrightarrow>
            text_preview p =
              Inr (JStr (if 100 < length t then take 100 t @ ascii ''...'' else t))) \<and>
         (\<forall>p t d day i rest w.
            py_getitem p (ascii ''text'') = Inr (JStr t) \<longrightarrow> 100 < length t \<longrightarrow>
            py_getitem p (ascii ''date'') = Inr d \<longrightarrow> clk (ascii ''%Y-%m-%d'') d = Inr day \<longrightarrow>
            preview_loop clk i (p # rest) w =
              preview_loop clk (i + 1) rest
                (print_line (MsgPreview i day (JStr (take 100 t @ ascii ''...''))) w))"
proof (intro conjI allI impI)
  show "extract_text_from_posts clk posts =
           Inr (map (export_block clk) (filter visible_text posts))"
    using extract_text_loop_exportable [OF assms, of "[]"]
    by (simp add: extract_text_from_posts_def)
next
  fix p
  show "\<exists>before after. export_block clk p = before @ post_text p @ after"
    unfolding export_block_def block_def by (metis append.assoc)
next
  fix p t
  assume "py_getitem p (ascii ''text'') = Inr (JStr t)"
  then show "text_preview p = Inr (JStr (if 100 < length t then take 100 t @ ascii ''...'' else t))"
    by (simp add: text_preview_def)
next
  fix p t d day i rest w
  assume "py_getitem p (ascii ''text'') = Inr (JStr t)" "100 < length t"
    "py_getitem p (ascii ''date'') = Inr d" "clk (ascii ''%Y-%m-%d'') d = Inr day"
  then show "preview_loop clk i (p # rest) w =
              preview_loop clk (i + 1) rest
                (print_line (MsgPreview i day (JStr (take 100 t @ ascii ''...''))) w)"
    by (simp add: text_preview_def)
qed

theorem export_keeps_visible_posts_witness:
  "exportable fixed_clock (wall_post 1 ''hello'') \<and>
   exportable fixed_clock (wall_post 2 ''  '') \<and>
   exportable fixed_clock long_post \<and>
   extract_text_from_posts fixed_clock [wall_post 1 ''hello'', wall_post 2 ''  '', long_post] =
     Inr [block (ascii ''2023-11-14'') (ascii ''hello''),
          block (ascii ''2023-11-14'') (replicate 150 120)] \<and>
   text_preview long_post = Inr (JStr (replicate 100 120 @ ascii ''...''))"
proof -
  have wf: "\<forall>p\<in>set [wall_post 1 ''hello'', wall_post 2 ''  '', long_post]. exportable fixed_clock p"
    by (simp add: exportable_def wall_post_def long_post_def fixed_clock_def)
  have vis: "visible_text (wall_post 1 ''hello'')" "\<not> visible_text (wall_post 2 ''  '')"
      "visible_text long_post"
    by (simp_all add: visible_text_def wall_post_def long_post_def py_isspace_def ascii_def)
  have blk: "export_block fixed_clock (wall_post 1 ''hello'') = block (ascii ''2023-11-14'') (ascii ''hello'')"
      "export_block fixed_clock long_post = block (ascii ''2023-11-14'') (replicate 150 120)"
    by (simp_all add: export_block_def export_date_def post_text_def wall_post_def long_post_def
        fixed_clock_def)
  have long_text: "py_getitem long_post (ascii ''text'') = Inr (JStr (replicate 150 120))"
    by (simp add: long_post_def)
  from export_keeps_visible_posts [OF wf]
  have "extract_text_from_posts fixed_clock [wall_post 1 ''hello'', wall_post 2 ''  '', long_post] =
      Inr (map (export_block fixed_clock)
        (filter visible_text [wall_post 1 ''hello'', wall_post 2 ''  '', long_post]))"
    and "text_preview long_post =
      Inr (JStr (if 100 < length (replicate 150 (120::nat)) then take 100 (replicate 150 120) @ ascii ''...''
                 else replicate 150 120))"
    using long_text by blast+
  then show ?thesis using wf vis blk by simp
qed

end
